theory Spec2Isabelle
  imports Complex_Main
begin

section \<open>The computation graph of graphAttack (coreGraph.py)\<close>

text \<open>
  The graph container of \<^verbatim>\<open>coreGraph.py\<close> holds references to node objects and
  mutates them. Node objects live in an explicit store: an address stands for a Python
  object, the store maps it to the object's attributes, and the graph's lists hold
  addresses. The class of an object is fixed when it is created, so it is kept beside
  the store and no operation writes it.
\<close>

subsection \<open>Arrays\<close>

text \<open>
  A numpy array is its shape and its elements in row-major order. \<open>ravel\<close> is
  \<^verbatim>\<open>np.ravel\<close>. The element type is left open: the graph only moves elements.
\<close>

datatype 'a ndarray = NDArray (shapeOf: "nat list") (ravel: "'a list")

text \<open>A Python value that is an array or \<^verbatim>\<open>None\<close>.\<close>

type_synonym 'a pyvalue = "'a ndarray option"

datatype error =
    InvalidGradientTarget
      \<comment> \<open>ValueError, addOperation: gradient asked of a node that is no Variable\<close>
  | InvalidFeeder
      \<comment> \<open>ValueError, addOperation: feeder that is no Variable\<close>
  | InternalInvariantViolation
      \<comment> \<open>ValueError of the codec loops: a gradient target that is no Variable\<close>
  | FinalNodeRequiredForPredictions
      \<comment> \<open>AttributeError, makePredictions: the final node is no CostOperation\<close>
  | NoneTypeAttribute
      \<comment> \<open>AttributeError of Python: a method called on None\<close>
  | ReshapeMismatch
      \<comment> \<open>ValueError of np.reshape: the element count does not fit the shape\<close>
  | NoneArray
      \<comment> \<open>np.ravel applied to None\<close>
  | NodeFailure string
      \<comment> \<open>an exception raised inside a method of a node\<close>

text \<open>
  \<^verbatim>\<open>np.size(x)\<close>: the number of elements; numpy wraps \<^verbatim>\<open>None\<close> into a
  0-dimensional array, of size 1.
\<close>

definition np_size :: "'a pyvalue \<Rightarrow> nat" where
  "np_size r = (case r of None \<Rightarrow> 1 | Some a \<Rightarrow> length (ravel a))"

text \<open>
  \<^verbatim>\<open>np.reshape(xs, shp)\<close> of a flat array: raises unless the shape holds exactly the
  elements given.
\<close>

definition np_reshape :: "'a list \<Rightarrow> nat list \<Rightarrow> error + 'a ndarray" where
  "np_reshape xs shp =
     (if prod_list shp = length xs then Inr (NDArray shp xs) else Inl ReshapeMismatch)"

text \<open>
  \<^verbatim>\<open>np.ravel(x)\<close> as the codec uses it. numpy would wrap \<^verbatim>\<open>None\<close> into an array
  of one Python object; an array of numbers cannot hold it, so the model stops there with
  \<open>NoneArray\<close>.
\<close>

definition np_ravel :: "'a pyvalue \<Rightarrow> error + 'a list" where
  "np_ravel r = (case r of None \<Rightarrow> Inl NoneArray | Some a \<Rightarrow> Inr (ravel a))"

text \<open>The slice \<^verbatim>\<open>params[pointer : pointer + nElems]\<close>; a Python slice is clipped
  to the array, it never raises.\<close>

definition slice :: "'a list \<Rightarrow> nat \<Rightarrow> nat \<Rightarrow> 'a list" where
  "slice params pointer nElems = take nElems (drop pointer params)"

subsection \<open>Nodes\<close>

type_synonym addr = nat

datatype kind = Variable | CostOperation | GenericOperation

record 'a node =
  name :: string
  referenceNumber :: "nat option"
  inputs :: "addr list"
  outputs :: "addr list"
  testing :: bool
  shape :: "nat list"
  result :: "'a pyvalue"
  gradient :: "'a pyvalue"

type_synonym 'a heap = "addr \<Rightarrow> 'a node"

text \<open>
  Modelled from the spec: the node classes (\<^verbatim>\<open>coreDataContainers.Variable\<close>, the
  operations of \<^verbatim>\<open>coreOperation\<close>) are not among the sources. The spec gives
  a node an identifier assigned at insertion, a cached value and a cached gradient
  cleared by reset, a mode flag, a shape, and, on a Variable, data assigned from outside.
  The graph reads a Variable's data as \<^verbatim>\<open>op.result\<close>, so on a Variable
  \<open>result\<close> is the data and reset keeps it.
\<close>

definition assignReferenceNumber :: "'a node \<Rightarrow> nat \<Rightarrow> 'a node" where
  "assignReferenceNumber n k = n\<lparr>referenceNumber := Some k\<rparr>"

definition reset :: "kind \<Rightarrow> 'a node \<Rightarrow> 'a node" where
  "reset k n = n\<lparr>result := (if k = Variable then result n else None), gradient := None\<rparr>"

definition assignData :: "'a node \<Rightarrow> 'a ndarray \<Rightarrow> 'a node" where
  "assignData n v = n\<lparr>shape := shapeOf v, result := Some v\<rparr>"

definition Variable_getValue :: "'a node \<Rightarrow> 'a pyvalue" where
  "Variable_getValue n = result n"

text \<open>
  The mathematics of the operations is outside the graph: the value of an operation, the
  gradient of any node and the predictions of a cost operation are parameters. Each is
  called on the store and a node, returns a value or the message of the exception it
  raised, and the store as it leaves it (the caches it filled).
\<close>

type_synonym 'a nodeCall = "'a heap \<Rightarrow> addr \<Rightarrow> (string + 'a pyvalue) \<times> 'a heap"

record 'a capability =
  opGetValue :: "'a nodeCall"
  opGetGradient :: "'a nodeCall"
  opMakePredictions :: "'a nodeCall"

subsection \<open>The graph\<close>

record basicGraph =
  printWarnings :: bool
  operations :: "addr list"
  gradientOps :: "addr list"
  finalOperation :: "addr option"
  feederOperation :: "addr option"
  endOperations :: "addr list"
  nOperations :: nat

text \<open>
  The state a graph method runs in: the graph object, the classes and the attributes of
  the node objects, and the warnings issued through \<^verbatim>\<open>warnings.warn\<close>.
\<close>

record 'a state = basicGraph +
  classOf :: "addr \<Rightarrow> kind"
  heap :: "'a heap"
  warned :: "string list"

text \<open>\<^verbatim>\<open>basicGraph.__init__\<close>, in a store of nodes built beforehand.\<close>

definition init :: "bool \<Rightarrow> (addr \<Rightarrow> kind) \<Rightarrow> 'a heap \<Rightarrow> 'a state" where
  "init pw cls h =
     \<lparr>printWarnings = pw, operations = [], gradientOps = [], finalOperation = None,
      feederOperation = None, endOperations = [], nOperations = 0,
      classOf = cls, heap = h, warned = []\<rparr>"

text \<open>
  The loop of addOperation over a copy of the sink list: \<open>snapshot\<close> is
  \<^verbatim>\<open>self.endOperations[:]\<close>, \<open>cur\<close> the list being edited;
  \<^verbatim>\<open>list.remove\<close> drops the first occurrence.
\<close>

fun removeConsumed :: "'a heap \<Rightarrow> addr \<Rightarrow> addr list \<Rightarrow> addr list \<Rightarrow> addr list" where
  "removeConsumed h operation [] cur = cur"
| "removeConsumed h operation (op # snapshot) cur =
     removeConsumed h operation snapshot
       (if operation \<in> set (outputs (h op)) then remove1 op cur else cur)"

text \<open>
  addOperation up to line 86: the node is appended, numbered and entered into the sink
  list before any flag is looked at.
\<close>

definition register :: "'a state \<Rightarrow> addr \<Rightarrow> 'a state" where
  "register s operation =
     (let s1 = s\<lparr>operations := operations s @ [operation]\<rparr>;
          s2 = s1\<lparr>heap := (heap s1)
                  (operation := assignReferenceNumber (heap s1 operation) (nOperations s1))\<rparr>;
          s3 = s2\<lparr>nOperations := nOperations s2 + 1\<rparr>;
          s4 = s3\<lparr>endOperations := endOperations s3 @ [operation]\<rparr>
      in s4\<lparr>endOperations :=
              removeConsumed (heap s4) operation (endOperations s4) (endOperations s4)\<rparr>)"

definition finalWarning :: string where
  "finalWarning = ''It is often preferred that the final operation is a ga.CostOperation''"

text \<open>
  addOperation. The flags \<open>isFinal\<close> and \<open>isFeeder\<close> are the source's parameters
  \<^verbatim>\<open>finalOperation\<close> and \<^verbatim>\<open>feederOperation\<close>. An exception leaves the state as
  it was when raised, so the state is returned beside the result.
\<close>

definition addOperation ::
  "'a state \<Rightarrow> addr \<Rightarrow> bool \<Rightarrow> bool \<Rightarrow> bool \<Rightarrow> (error + addr) \<times> 'a state" where
  "addOperation s operation doGradient isFinal isFeeder =
     (let s1 = register s operation in
      if doGradient \<and> classOf s1 operation \<noteq> Variable then (Inl InvalidGradientTarget, s1)
      else
        let s2 = (if doGradient then s1\<lparr>gradientOps := gradientOps s1 @ [operation]\<rparr> else s1);
            s3 = (if isFinal
                  then (if classOf s2 operation \<noteq> CostOperation \<and> printWarnings s2
                        then s2\<lparr>warned := warned s2 @ [finalWarning]\<rparr> else s2)
                       \<lparr>finalOperation := Some operation\<rparr>
                  else s2)
        in if isFeeder \<and> classOf s3 operation \<noteq> Variable then (Inl InvalidFeeder, s3)
           else (Inr operation,
                 if isFeeder then s3\<lparr>feederOperation := Some operation\<rparr> else s3))"

text \<open>unrollGradientParameters: the loop with its accumulator \<open>params\<close>.\<close>

fun unrollParametersLoop :: "'a state \<Rightarrow> addr list \<Rightarrow> 'a list \<Rightarrow> error + 'a list" where
  "unrollParametersLoop s [] params = Inr params"
| "unrollParametersLoop s (op # ops) params =
     (if classOf s op \<noteq> Variable then Inl InternalInvariantViolation
      else case np_ravel (Variable_getValue (heap s op)) of
             Inl e \<Rightarrow> Inl e
           | Inr v \<Rightarrow> unrollParametersLoop s ops (params @ v))"

definition unrollGradientParameters :: "'a state \<Rightarrow> (error + 'a list) \<times> 'a state" where
  "unrollGradientParameters s = (unrollParametersLoop s (gradientOps s) [], s)"

text \<open>attachParameters: the loop with its \<open>pointer\<close>; each target is assigned as it is
  reached, so a failure leaves the earlier targets assigned.\<close>

fun attachLoop :: "'a state \<Rightarrow> addr list \<Rightarrow> 'a list \<Rightarrow> nat \<Rightarrow> (error + unit) \<times> 'a state" where
  "attachLoop s [] params pointer = (Inr (), s)"
| "attachLoop s (op # ops) params pointer =
     (if classOf s op \<noteq> Variable then (Inl InternalInvariantViolation, s)
      else
        let nElems = np_size (result (heap s op));
            shaperino = shape (heap s op)
        in case np_reshape (slice params pointer nElems) shaperino of
             Inl e \<Rightarrow> (Inl e, s)
           | Inr v \<Rightarrow>
               attachLoop (s\<lparr>heap := (heap s)(op := assignData (heap s op) v)\<rparr>)
                 ops params (pointer + nElems))"

definition attachParameters :: "'a state \<Rightarrow> 'a list \<Rightarrow> (error + unit) \<times> 'a state" where
  "attachParameters s params = attachLoop s (gradientOps s) params 0"

text \<open>Calling a method of a node: a Variable answers itself, an operation through the
  capability; an exception of the node is passed on.\<close>

definition call :: "'a nodeCall \<Rightarrow> 'a state \<Rightarrow> addr \<Rightarrow> (error + 'a pyvalue) \<times> 'a state" where
  "call f s a =
     (case f (heap s) a of
        (Inl msg, h) \<Rightarrow> (Inl (NodeFailure msg), s\<lparr>heap := h\<rparr>)
      | (Inr v, h) \<Rightarrow> (Inr v, s\<lparr>heap := h\<rparr>))"

definition node_getValue ::
  "'a capability \<Rightarrow> 'a state \<Rightarrow> addr \<Rightarrow> (error + 'a pyvalue) \<times> 'a state" where
  "node_getValue eng s a =
     (if classOf s a = Variable then (Inr (Variable_getValue (heap s a)), s)
      else call (opGetValue eng) s a)"

definition feedForward :: "'a capability \<Rightarrow> 'a state \<Rightarrow> (error + 'a pyvalue) \<times> 'a state" where
  "feedForward eng s =
     (case finalOperation s of
        None \<Rightarrow> (Inl NoneTypeAttribute, s)
      | Some f \<Rightarrow> node_getValue eng s f)"

definition resetAll :: "'a state \<Rightarrow> 'a state" where
  "resetAll s =
     s\<lparr>heap := fold (\<lambda>op h. h(op := reset (classOf s op) (h op))) (operations s) (heap s)\<rparr>"

definition getValue :: "'a capability \<Rightarrow> 'a state \<Rightarrow> (error + 'a pyvalue) \<times> 'a state" where
  "getValue eng s = feedForward eng (resetAll s)"

text \<open>feedBackward: the tuple reads the number and the name before it asks for the
  gradient.\<close>

fun feedBackwardLoop ::
  "'a capability \<Rightarrow> 'a state \<Rightarrow> addr list \<Rightarrow> (nat option \<times> string \<times> 'a pyvalue) list \<Rightarrow>
   (error + (nat option \<times> string \<times> 'a pyvalue) list) \<times> 'a state" where
  "feedBackwardLoop eng s [] gradients = (Inr gradients, s)"
| "feedBackwardLoop eng s (op # ops) gradients =
     (let num = referenceNumber (heap s op); nm = name (heap s op) in
      case call (opGetGradient eng) s op of
        (Inl e, s') \<Rightarrow> (Inl e, s')
      | (Inr g, s') \<Rightarrow> feedBackwardLoop eng s' ops (gradients @ [(num, nm, g)]))"

definition feedBackward ::
  "'a capability \<Rightarrow> 'a state \<Rightarrow>
   (error + (nat option \<times> string \<times> 'a pyvalue) list) \<times> 'a state" where
  "feedBackward eng s = feedBackwardLoop eng s (gradientOps s) []"

definition getGradients ::
  "'a capability \<Rightarrow> 'a state \<Rightarrow>
   (error + (nat option \<times> string \<times> 'a pyvalue) list) \<times> 'a state" where
  "getGradients eng s = feedBackward eng (resetAll s)"

definition setTesting :: "bool \<Rightarrow> 'a state \<Rightarrow> 'a state" where
  "setTesting b s =
     s\<lparr>heap := fold (\<lambda>op h. h(op := (h op)\<lparr>testing := b\<rparr>)) (operations s) (heap s)\<rparr>"

text \<open>makePredictions: no handler surrounds the call of the final node, so an exception
  leaves before the flags are set back.\<close>

definition makePredictions :: "'a capability \<Rightarrow> 'a state \<Rightarrow> (error + 'a pyvalue) \<times> 'a state" where
  "makePredictions eng s =
     (case finalOperation s of
        None \<Rightarrow> (Inl FinalNodeRequiredForPredictions, s)
      | Some f \<Rightarrow>
          if classOf s f \<noteq> CostOperation then (Inl FinalNodeRequiredForPredictions, s)
          else
            let s1 = setTesting True s;
                s2 = resetAll s1
            in case call (opMakePredictions eng) s2 f of
                 (Inl e, s3) \<Rightarrow> (Inl e, s3)
               | (Inr pred, s3) \<Rightarrow> (Inr pred, setTesting False s3))"

text \<open>unrollGradients: the loop with its accumulator \<open>grads\<close>.\<close>

fun unrollGradientsLoop ::
  "'a capability \<Rightarrow> 'a state \<Rightarrow> addr list \<Rightarrow> 'a list \<Rightarrow> (error + 'a list) \<times> 'a state" where
  "unrollGradientsLoop eng s [] grads = (Inr grads, s)"
| "unrollGradientsLoop eng s (op # ops) grads =
     (if classOf s op \<noteq> Variable then (Inl InternalInvariantViolation, s)
      else case call (opGetGradient eng) s op of
             (Inl e, s') \<Rightarrow> (Inl e, s')
           | (Inr g, s') \<Rightarrow>
               (case np_ravel g of
                  Inl e \<Rightarrow> (Inl e, s')
                | Inr v \<Rightarrow> unrollGradientsLoop eng s' ops (grads @ v)))"

definition unrollGradients :: "'a capability \<Rightarrow> 'a state \<Rightarrow> (error + 'a list) \<times> 'a state" where
  "unrollGradients eng s = unrollGradientsLoop eng s (gradientOps s) []"

subsection \<open>Sequences of calls\<close>

text \<open>The public methods of a graph that read or change it, and a run of them from a
  new graph. An exception ends one call, not the run: the caller may go on.\<close>

datatype 'a graphMethod =
    AddOperation addr bool bool bool
  | UnrollGradientParameters
  | AttachParameters "'a list"
  | FeedForward
  | GetValue
  | FeedBackward
  | GetGradients
  | MakePredictions
  | UnrollGradients
  | ResetAll

fun exec :: "'a capability \<Rightarrow> 'a state \<Rightarrow> 'a graphMethod \<Rightarrow> 'a state" where
  "exec eng s (AddOperation a doGradient isFinal isFeeder) =
     snd (addOperation s a doGradient isFinal isFeeder)"
| "exec eng s UnrollGradientParameters = snd (unrollGradientParameters s)"
| "exec eng s (AttachParameters params) = snd (attachParameters s params)"
| "exec eng s FeedForward = snd (feedForward eng s)"
| "exec eng s GetValue = snd (getValue eng s)"
| "exec eng s FeedBackward = snd (feedBackward eng s)"
| "exec eng s GetGradients = snd (getGradients eng s)"
| "exec eng s MakePredictions = snd (makePredictions eng s)"
| "exec eng s UnrollGradients = snd (unrollGradients eng s)"
| "exec eng s ResetAll = resetAll s"

definition run :: "'a capability \<Rightarrow> 'a state \<Rightarrow> 'a graphMethod list \<Rightarrow> 'a state" where
  "run eng s ms = foldl (exec eng) s ms"

subsection \<open>Auxiliary definitions\<close>

text \<open>What a state holds apart from the store: the graph object, the classes and the
  warnings.\<close>

definition graphOf ::
  "'a state \<Rightarrow> basicGraph \<times> (addr \<Rightarrow> kind) \<times> string list" where
  "graphOf s =
     (\<lparr>printWarnings = printWarnings s, operations = operations s,
       gradientOps = gradientOps s, finalOperation = finalOperation s,
       feederOperation = feederOperation s, endOperations = endOperations s,
       nOperations = nOperations s\<rparr>, classOf s, warned s)"

fun isAdd :: "'a graphMethod \<Rightarrow> bool" where
  "isAdd (AddOperation a doGradient isFinal isFeeder) = True"
| "isAdd _ = False"

fun registersFinal :: "'a graphMethod \<Rightarrow> bool" where
  "registersFinal (AddOperation a doGradient isFinal isFeeder) = isFinal"
| "registersFinal _ = False"

text \<open>A node just built, and a capability every method of which raises: the inputs of
  the examples.\<close>

definition freshNode :: "'a node" where
  "freshNode = \<lparr>name = ''node'', referenceNumber = None, inputs = [], outputs = [],
                 testing = False, shape = [], result = None, gradient = None\<rparr>"

definition failing :: "'a capability" where
  "failing = \<lparr>opGetValue = (\<lambda>h a. (Inl ''no value'', h)),
               opGetGradient = (\<lambda>h a. (Inl ''no gradient'', h)),
               opMakePredictions = (\<lambda>h a. (Inl ''no predictions'', h))\<rparr>"

text \<open>A capability that answers from the caches, and a graph of one cost operation,
  registered as the final node.\<close>

definition cached :: "'a capability" where
  "cached = \<lparr>opGetValue = (\<lambda>h a. (Inr (result (h a)), h)),
              opGetGradient = (\<lambda>h a. (Inr (gradient (h a)), h)),
              opMakePredictions = (\<lambda>h a. (Inr (result (h a)), h))\<rparr>"

definition costGraph :: "real state" where
  "costGraph =
     snd (addOperation (init True (\<lambda>a. CostOperation) (\<lambda>a. freshNode)) 0 False True False)"

text \<open>Invariant I3: every entry of the gradient-target list is a Variable.\<close>

definition targetsAreVariables :: "'a state \<Rightarrow> bool" where
  "targetsAreVariables s = list_all (\<lambda>a. classOf s a = Variable) (gradientOps s)"

text \<open>The nodes a run registers, in order.\<close>

fun added :: "'a graphMethod list \<Rightarrow> addr list" where
  "added [] = []"
| "added (AddOperation a doGradient isFinal isFeeder # ms) = a # added ms"
| "added (m # ms) = added ms"

text \<open>The node methods leave the identifiers of the nodes alone.\<close>

definition keepsIdentifiers :: "'a capability \<Rightarrow> bool" where
  "keepsIdentifiers eng =
     (\<forall>h a b. referenceNumber (snd (opGetValue eng h a) b) = referenceNumber (h b) \<and>
              referenceNumber (snd (opGetGradient eng h a) b) = referenceNumber (h b) \<and>
              referenceNumber (snd (opMakePredictions eng h a) b) = referenceNumber (h b))"

definition idsOf :: "'a state \<Rightarrow> addr \<Rightarrow> nat option" where
  "idsOf s = (\<lambda>a. referenceNumber (heap s a))"

text \<open>Invariant I1: the identifiers of the node sequence are 0, 1, 2, ... in order.\<close>

definition numbered :: "'a state \<Rightarrow> bool" where
  "numbered s = (map (idsOf s) (operations s) = map Some [0..<length (operations s)])"

text \<open>Invariant I2 over a sequence of insertions: the inputs of each node are among
  the nodes inserted before it (\<open>seen\<close>).\<close>

fun inputsRegistered :: "'a heap \<Rightarrow> addr list \<Rightarrow> addr list \<Rightarrow> bool" where
  "inputsRegistered h seen [] = True"
| "inputsRegistered h seen (a # rest) =
     (list_all (\<lambda>b. b \<in> set seen) (inputs (h a)) \<and> inputsRegistered h (seen @ [a]) rest)"

text \<open>The outputs of a node are the nodes that list it among their inputs.\<close>

definition backReferences :: "'a heap \<Rightarrow> bool" where
  "backReferences h = (\<forall>a b. (b \<in> set (outputs (h a))) = (a \<in> set (inputs (h b))))"

text \<open>Two nodes: node 1 takes node 0 as its input.\<close>

definition pairHeap :: "real heap" where
  "pairHeap = (\<lambda>a. if a = 0 then freshNode\<lparr>outputs := [1]\<rparr>
                    else if a = 1 then freshNode\<lparr>inputs := [0]\<rparr>
                    else freshNode)"

definition pairClass :: "addr \<Rightarrow> kind" where
  "pairClass = (\<lambda>a. if a = 0 then Variable else CostOperation)"

text \<open>Invariant I5, and what the proof carries beside it.\<close>

definition sinksExact :: "'a state \<Rightarrow> bool" where
  "sinksExact s =
     (set (endOperations s) =
        {n \<in> set (operations s). \<forall>m \<in> set (operations s). n \<notin> set (inputs (heap s m))})"

definition closedInputs :: "'a heap \<Rightarrow> 'a state \<Rightarrow> bool" where
  "closedInputs h s =
     (distinct (endOperations s) \<and>
      (\<forall>b. inputs (heap s b) = inputs (h b) \<and> outputs (heap s b) = outputs (h b)) \<and>
      (\<forall>m \<in> set (operations s). set (inputs (h m)) \<subseteq> set (operations s)))"

text \<open>The element count attachParameters takes for a target, \<^verbatim>\<open>np.size(op.result)\<close>, and
  the sum over the gradient-target list.\<close>

definition elementCount :: "'a state \<Rightarrow> addr \<Rightarrow> nat" where
  "elementCount s op = np_size (result (heap s op))"

definition totalCount :: "'a state \<Rightarrow> nat" where
  "totalCount s = sum_list (map (elementCount s) (gradientOps s))"

text \<open>The targets are Variables and the shape of each holds as many elements as its
  data.\<close>

definition codecReady :: "'a state \<Rightarrow> addr list \<Rightarrow> bool" where
  "codecReady s ops =
     list_all (\<lambda>op. classOf s op = Variable \<and>
                     prod_list (shape (heap s op)) = np_size (result (heap s op))) ops"


text \<open>A graph of one Variable, a gradient target, holding the array [3.0].\<close>

definition oneParameter :: "real state" where
  "oneParameter =
     snd (addOperation
            (init True (\<lambda>a. Variable)
               (\<lambda>a. freshNode\<lparr>shape := [1], result := Some (NDArray [1] [3])\<rparr>))
            0 True False False)"

text \<open>The flattened value of a target, and of a gradient as feedBackward returns it.\<close>

definition flatValue :: "'a state \<Rightarrow> addr \<Rightarrow> 'a list" where
  "flatValue s op = (case result (heap s op) of None \<Rightarrow> [] | Some v \<Rightarrow> ravel v)"

definition gradientOf :: "nat option \<times> string \<times> 'a pyvalue \<Rightarrow> 'a pyvalue" where
  "gradientOf t = snd (snd t)"

definition flatGradient :: "nat option \<times> string \<times> 'a pyvalue \<Rightarrow> 'a list" where
  "flatGradient t = (case gradientOf t of None \<Rightarrow> [] | Some g \<Rightarrow> ravel g)"

text \<open>Where the entries of target \<open>i\<close> start in the unrolled vector.\<close>

definition offset :: "'a state \<Rightarrow> nat \<Rightarrow> nat" where
  "offset s i = sum_list (map (elementCount s) (take i (gradientOps s)))"

text \<open>The gradient returned for a target has as many elements as the target's value.\<close>

definition sameCount :: "'a state \<Rightarrow> addr \<Rightarrow> nat option \<times> string \<times> 'a pyvalue \<Rightarrow> bool" where
  "sameCount s op t =
     (case gradientOf t of None \<Rightarrow> False | Some g \<Rightarrow> length (ravel g) = elementCount s op)"

text \<open>A graph of two Variables, both gradient targets, with values [1, 2] and [3] and
  cached gradients [10, 20] and [30].\<close>

definition twoParameters :: "real state" where
  "twoParameters =
     run failing
       (init True (\<lambda>a. Variable)
          (\<lambda>a. if a = 0
                then freshNode\<lparr>shape := [2], result := Some (NDArray [2] [1, 2]),
                                gradient := Some (NDArray [2] [10, 20])\<rparr>
                else freshNode\<lparr>shape := [1], result := Some (NDArray [1] [3]),
                                gradient := Some (NDArray [1] [30])\<rparr>))
       [AddOperation 0 True False False, AddOperation 1 True False False]"

text \<open>How many leading targets find their slice inside a vector of length \<open>len\<close>,
  counted from \<open>pointer\<close>; for a vector that is too short this is the index of the first
  target whose slice comes out short.\<close>

fun fittingTargets :: "nat list \<Rightarrow> nat \<Rightarrow> nat \<Rightarrow> nat" where
  "fittingTargets [] pointer len = 0"
| "fittingTargets (n # ns) pointer len =
     (if pointer + n \<le> len then Suc (fittingTargets ns (pointer + n) len) else 0)"

definition firstShort :: "'a state \<Rightarrow> 'a list \<Rightarrow> nat" where
  "firstShort s params =
     fittingTargets (map (elementCount s) (gradientOps s)) 0 (length params)"

text \<open>A graph of a Variable and a cost operation on it, the final node, with caches
  filled as a forward and a backward pass leave them.\<close>

definition warmGraph :: "real state" where
  "warmGraph =
     run failing
       (init True pairClass
          (\<lambda>a. if a = 0
                then freshNode\<lparr>outputs := [1], shape := [1], result := Some (NDArray [1] [3]),
                                gradient := Some (NDArray [1] [6])\<rparr>
                else freshNode\<lparr>inputs := [0], shape := [1], result := Some (NDArray [1] [7]),
                                gradient := Some (NDArray [1] [1])\<rparr>))
       [AddOperation 0 True False True, AddOperation 1 False True False]"

section \<open>Properties\<close>

subsection \<open>Only addOperation changes the graph object\<close>

lemma graphOf_heap [simp]: "graphOf (s\<lparr>heap := h\<rparr>) = graphOf s"
  by (simp add: graphOf_def)

lemma graphOf_fields:
  assumes "graphOf s' = graphOf s"
  shows "printWarnings s' = printWarnings s" "operations s' = operations s"
    "gradientOps s' = gradientOps s" "finalOperation s' = finalOperation s"
    "feederOperation s' = feederOperation s" "endOperations s' = endOperations s"
    "nOperations s' = nOperations s" "classOf s' = classOf s" "warned s' = warned s"
  using assms by (simp_all add: graphOf_def)

lemma graphOf_call [simp]: "graphOf (snd (call f s a)) = graphOf s"
  by (simp add: call_def split: prod.splits sum.splits)

lemma graphOf_callD: "call f s a = (r, s') \<Longrightarrow> graphOf s' = graphOf s"
  using graphOf_call [of f s a] by simp

lemma graphOf_attachLoop [simp]: "graphOf (snd (attachLoop s ops params p)) = graphOf s"
  by (induction ops arbitrary: s p) (simp_all add: Let_def split: sum.splits)

lemma graphOf_feedBackwardLoop [simp]:
  "graphOf (snd (feedBackwardLoop eng s ops acc)) = graphOf s"
proof (induction ops arbitrary: s acc)
  case Nil
  show ?case by simp
next
  case (Cons op ops)
  show ?case
    by (auto simp: Let_def Cons.IH split: prod.splits sum.splits dest: graphOf_callD)
qed

lemma graphOf_unrollGradientsLoop [simp]:
  "graphOf (snd (unrollGradientsLoop eng s ops acc)) = graphOf s"
proof (induction ops arbitrary: s acc)
  case Nil
  show ?case by simp
next
  case (Cons op ops)
  show ?case
    by (auto simp: Let_def Cons.IH split: prod.splits sum.splits dest: graphOf_callD)
qed

lemma graphOf_resetAll [simp]: "graphOf (resetAll s) = graphOf s"
  by (simp add: resetAll_def)

lemma graphOf_setTesting [simp]: "graphOf (setTesting b s) = graphOf s"
  by (simp add: setTesting_def)

lemma graphOf_node_getValue [simp]: "graphOf (snd (node_getValue eng s a)) = graphOf s"
  by (simp add: node_getValue_def)

lemma graphOf_feedForward [simp]: "graphOf (snd (feedForward eng s)) = graphOf s"
  by (simp add: feedForward_def split: option.splits)

lemma graphOf_makePredictions [simp]: "graphOf (snd (makePredictions eng s)) = graphOf s"
  by (auto simp: makePredictions_def Let_def split: option.splits prod.splits sum.splits
      dest: graphOf_callD)

lemma graphOf_exec: "\<not> isAdd m \<Longrightarrow> graphOf (exec eng s m) = graphOf s"
  by (cases m)
     (simp_all add: unrollGradientParameters_def attachParameters_def getValue_def
        feedBackward_def getGradients_def unrollGradients_def)

lemma register_fields [simp]:
  "printWarnings (register s a) = printWarnings s"
  "operations (register s a) = operations s @ [a]"
  "gradientOps (register s a) = gradientOps s"
  "finalOperation (register s a) = finalOperation s"
  "feederOperation (register s a) = feederOperation s"
  "nOperations (register s a) = nOperations s + 1"
  "classOf (register s a) = classOf s"
  "warned (register s a) = warned s"
  "heap (register s a) = (heap s)(a := assignReferenceNumber (heap s a) (nOperations s))"
  by (simp_all add: register_def Let_def)

subsection \<open>A graph without a final node\<close>

lemma finalOperation_exec:
  "\<not> registersFinal m \<Longrightarrow> finalOperation (exec eng s m) = finalOperation s"
proof (cases "isAdd m")
  case True
  assume "\<not> registersFinal m"
  with True show ?thesis
    by (cases m) (simp_all add: addOperation_def Let_def)
next
  case False
  then show ?thesis by (rule graphOf_fields(4) [OF graphOf_exec])
qed

lemma finalOperation_run:
  "\<not> list_ex registersFinal ms \<Longrightarrow> finalOperation (run eng s ms) = finalOperation s"
  unfolding run_def
  by (induction ms arbitrary: s) (simp_all add: finalOperation_exec)

text \<open>
  C10. A new graph has no final node, and it has none after any run of methods in which
  no addOperation passes finalOperation=True. In that state feedForward and getValue
  fail on the absent node (the AttributeError of Python) and makePredictions fails with
  its own error: none of them returns a value.
\<close>

theorem no_final_fails:
  assumes "\<not> list_ex registersFinal ms" and "s = run eng (init pw cls h) ms"
  shows "finalOperation s = None \<and>
         fst (feedForward eng s) = Inl NoneTypeAttribute \<and>
         fst (getValue eng s) = Inl NoneTypeAttribute \<and>
         fst (makePredictions eng s) = Inl FinalNodeRequiredForPredictions"
proof -
  have none: "finalOperation s = None"
    using assms by (simp add: finalOperation_run init_def)
  then have "finalOperation (resetAll s) = None"
    by (simp add: resetAll_def)
  with none show ?thesis
    by (simp add: feedForward_def getValue_def makePredictions_def)
qed

theorem no_final_fails_witness:
  "finalOperation (run failing (init True (\<lambda>a. Variable) (\<lambda>a. freshNode :: real node))
       [AddOperation 0 True False True, GetValue]) = None \<and>
   fst (feedForward failing (run failing (init True (\<lambda>a. Variable) (\<lambda>a. freshNode :: real node))
       [AddOperation 0 True False True, GetValue])) = Inl NoneTypeAttribute \<and>
   fst (getValue failing (run failing (init True (\<lambda>a. Variable) (\<lambda>a. freshNode :: real node))
       [AddOperation 0 True False True, GetValue])) = Inl NoneTypeAttribute \<and>
   fst (makePredictions failing (run failing (init True (\<lambda>a. Variable) (\<lambda>a. freshNode :: real node))
       [AddOperation 0 True False True, GetValue])) = Inl FinalNodeRequiredForPredictions"
  using no_final_fails [of "[AddOperation 0 True False True, GetValue]" _ failing True
      "\<lambda>a. Variable" "\<lambda>a. freshNode :: real node", OF _ refl]
  by simp

subsection \<open>Registration comes before validation\<close>

lemma removeConsumed_heap_cong:
  "(\<And>b. outputs (h b) = outputs (h' b)) \<Longrightarrow>
   removeConsumed h a xs cur = removeConsumed h' a xs cur"
  by (induction xs arbitrary: cur) simp_all

lemma endOperations_register:
  "endOperations (register s a) =
     removeConsumed (heap s) a (endOperations s @ [a]) (endOperations s @ [a])"
proof -
  have "removeConsumed ((heap s)(a := assignReferenceNumber (heap s a) (nOperations s))) a xs cur =
        removeConsumed (heap s) a xs cur" for xs cur
    by (rule removeConsumed_heap_cong) (simp add: assignReferenceNumber_def)
  then show ?thesis
    by (simp add: register_def Let_def)
qed

text \<open>
  C1, as amended. addOperation with doGradient=True on a node that is no Variable fails
  with InvalidGradientTarget and leaves the gradient-target list, the final and feeder
  references and the warnings as they were; the node has been registered all the same:
  it is appended to the node sequence, it has received the next identifier, the counter
  has grown by one and the sink list has been updated for it.
\<close>

theorem addOperation_gradient_of_operation:
  assumes "classOf s operation \<noteq> Variable"
  shows "addOperation s operation True isFinal isFeeder =
           (Inl InvalidGradientTarget, register s operation) \<and>
         gradientOps (register s operation) = gradientOps s \<and>
         finalOperation (register s operation) = finalOperation s \<and>
         feederOperation (register s operation) = feederOperation s \<and>
         warned (register s operation) = warned s \<and>
         operations (register s operation) = operations s @ [operation] \<and>
         nOperations (register s operation) = nOperations s + 1 \<and>
         referenceNumber (heap (register s operation) operation) = Some (nOperations s) \<and>
         endOperations (register s operation) =
           removeConsumed (heap s) operation (endOperations s @ [operation])
             (endOperations s @ [operation])"
  using assms
  by (simp add: addOperation_def Let_def endOperations_register assignReferenceNumber_def)

theorem addOperation_gradient_of_operation_witness:
  "addOperation (init True (\<lambda>a. GenericOperation) (\<lambda>a. freshNode :: real node)) 0 True False False =
     (Inl InvalidGradientTarget,
      register (init True (\<lambda>a. GenericOperation) (\<lambda>a. freshNode :: real node)) 0) \<and>
   operations (register (init True (\<lambda>a. GenericOperation) (\<lambda>a. freshNode :: real node)) 0) = [0]"
  using addOperation_gradient_of_operation
    [of "init True (\<lambda>a. GenericOperation) (\<lambda>a. freshNode :: real node)" 0 False False]
  by (simp add: init_def)

text \<open>
  The claim as stated fails: on a new graph the rejected call leaves a node sequence of
  one node, a counter of 1 and a sink list of one node.
\<close>

theorem addOperation_unchanged_counterexample:
  "fst (addOperation (init True (\<lambda>a. GenericOperation) (\<lambda>a. freshNode :: real node))
          0 True False False) = Inl InvalidGradientTarget \<and>
   operations (init True (\<lambda>a. GenericOperation) (\<lambda>a. freshNode :: real node)) = [] \<and>
   operations (snd (addOperation (init True (\<lambda>a. GenericOperation) (\<lambda>a. freshNode :: real node))
          0 True False False)) = [0] \<and>
   nOperations (init True (\<lambda>a. GenericOperation) (\<lambda>a. freshNode :: real node)) = 0 \<and>
   nOperations (snd (addOperation (init True (\<lambda>a. GenericOperation) (\<lambda>a. freshNode :: real node))
          0 True False False)) = 1 \<and>
   endOperations (init True (\<lambda>a. GenericOperation) (\<lambda>a. freshNode :: real node)) = [] \<and>
   endOperations (snd (addOperation (init True (\<lambda>a. GenericOperation) (\<lambda>a. freshNode :: real node))
          0 True False False)) = [0]"
  by (simp add: addOperation_def register_def init_def Let_def freshNode_def
      assignReferenceNumber_def)

subsection \<open>Loops over the registered nodes\<close>

lemma fold_update_each:
  assumes "\<And>a x. g a (g a x) = g a x"
  shows "fold (\<lambda>op h. h(op := g op (h op))) ops h a =
           (if a \<in> set ops then g a (h a) else h a)"
  using assms by (induction ops arbitrary: h) auto

lemma reset_idem: "reset k (reset k n) = reset k n"
  by (simp add: reset_def)

lemma heap_resetAll:
  "heap (resetAll s) a =
     (if a \<in> set (operations s) then reset (classOf s a) (heap s a) else heap s a)"
  unfolding resetAll_def
  using fold_update_each [of "\<lambda>a. reset (classOf s a)" "operations s" "heap s" a]
  by (simp add: reset_idem)

lemma heap_setTesting:
  "heap (setTesting b s) a =
     (if a \<in> set (operations s) then (heap s a)\<lparr>testing := b\<rparr> else heap s a)"
  unfolding setTesting_def
  using fold_update_each [of "\<lambda>a n. n\<lparr>testing := b\<rparr>" "operations s" "heap s" a]
  by simp

lemma setTesting_fields [simp]:
  "operations (setTesting b s) = operations s" "classOf (setTesting b s) = classOf s"
  "gradientOps (setTesting b s) = gradientOps s"
  "finalOperation (setTesting b s) = finalOperation s"
  by (simp_all add: setTesting_def)

lemma resetAll_fields [simp]:
  "operations (resetAll s) = operations s" "classOf (resetAll s) = classOf s"
  "gradientOps (resetAll s) = gradientOps s"
  "finalOperation (resetAll s) = finalOperation s"
  by (simp_all add: resetAll_def)

lemma costGraph_fields:
  "finalOperation costGraph = Some 0" "classOf costGraph = (\<lambda>a. CostOperation)"
  "operations costGraph = [0]"
  by (simp_all add: costGraph_def addOperation_def init_def Let_def)

lemma twoParameters_fields:
  "gradientOps twoParameters = [0, 1]" "classOf twoParameters = (\<lambda>a. Variable)"
  "heap twoParameters 0 =
     freshNode\<lparr>shape := [2], result := Some (NDArray [2] [1, 2]),
               gradient := Some (NDArray [2] [10, 20]), referenceNumber := Some 0\<rparr>"
  "heap twoParameters (Suc 0) =
     freshNode\<lparr>shape := [1], result := Some (NDArray [1] [3]),
               gradient := Some (NDArray [1] [30]), referenceNumber := Some 1\<rparr>"
  by (simp_all add: twoParameters_def run_def addOperation_def init_def Let_def
      assignReferenceNumber_def)

lemma warmGraph_fields:
  "finalOperation warmGraph = Some 1" "operations warmGraph = [0, 1]"
  "classOf warmGraph = pairClass"
  "result (heap warmGraph 0) = Some (NDArray [1] [3])"
  "gradient (heap warmGraph 0) = Some (NDArray [1] [6])"
  "result (heap warmGraph (Suc 0)) = Some (NDArray [1] [7])"
  "gradient (heap warmGraph (Suc 0)) = Some (NDArray [1] [1])"
  by (simp_all add: warmGraph_def run_def addOperation_def init_def Let_def
      assignReferenceNumber_def freshNode_def)

subsection \<open>getValue and feedForward\<close>

text \<open>
  C7. With a final node \<open>f\<close>, getValue is the value of \<open>f\<close> asked in the state that
  resetAll leaves, and feedForward is the value of \<open>f\<close> asked in the state as it is.
  resetAll applies reset to every registered node and touches nothing else: the cached
  gradient of every registered node is gone, and so is the cached value of every
  registered operation (the value of a Variable is its data, which reset keeps).
\<close>

theorem getValue_resets_then_feeds:
  assumes "finalOperation s = Some f"
  shows "getValue eng s = node_getValue eng (resetAll s) f \<and>
         feedForward eng s = node_getValue eng s f \<and>
         graphOf (resetAll s) = graphOf s \<and>
         (\<forall>a. heap (resetAll s) a =
            (if a \<in> set (operations s) then reset (classOf s a) (heap s a) else heap s a)) \<and>
         (\<forall>a \<in> set (operations s).
            gradient (heap (resetAll s) a) = None \<and>
            (classOf s a \<noteq> Variable \<longrightarrow> result (heap (resetAll s) a) = None))"
proof -
  have "finalOperation (resetAll s) = Some f"
    using assms by (simp add: resetAll_def)
  then have "getValue eng s = node_getValue eng (resetAll s) f"
    by (simp add: getValue_def feedForward_def)
  moreover have "feedForward eng s = node_getValue eng s f"
    using assms by (simp add: feedForward_def)
  moreover have "\<forall>a \<in> set (operations s).
            gradient (heap (resetAll s) a) = None \<and>
            (classOf s a \<noteq> Variable \<longrightarrow> result (heap (resetAll s) a) = None)"
    by (simp add: heap_resetAll reset_def)
  ultimately show ?thesis
    by (simp add: heap_resetAll)
qed

theorem getValue_resets_then_feeds_witness:
  "finalOperation warmGraph = Some 1 \<and>
   result (heap warmGraph 1) = Some (NDArray [1] [7]) \<and>
   gradient (heap warmGraph 1) = Some (NDArray [1] [1]) \<and>
   gradient (heap warmGraph 0) = Some (NDArray [1] [6]) \<and>
   fst (feedForward cached warmGraph) = Inr (Some (NDArray [1] [7])) \<and>
   fst (getValue cached warmGraph) = Inr None \<and>
   result (heap (resetAll warmGraph) 1) = None \<and>
   gradient (heap (resetAll warmGraph) 1) = None \<and>
   gradient (heap (resetAll warmGraph) 0) = None \<and>
   result (heap (resetAll warmGraph) 0) = Some (NDArray [1] [3])"
proof -
  note th = getValue_resets_then_feeds [OF warmGraph_fields(1), of cached]
  from th have "\<forall>a \<in> set (operations warmGraph).
      gradient (heap (resetAll warmGraph) a) = None \<and>
      (classOf warmGraph a \<noteq> Variable \<longrightarrow> result (heap (resetAll warmGraph) a) = None)"
    by blast
  then have cleared: "result (heap (resetAll warmGraph) 1) = None"
    "gradient (heap (resetAll warmGraph) 1) = None"
    "gradient (heap (resetAll warmGraph) 0) = None"
    by (simp_all add: warmGraph_fields pairClass_def)
  from th have "\<forall>a. heap (resetAll warmGraph) a =
      (if a \<in> set (operations warmGraph) then reset (classOf warmGraph a) (heap warmGraph a)
       else heap warmGraph a)"
    by blast
  from this [rule_format, of 0]
  have kept: "result (heap (resetAll warmGraph) 0) = Some (NDArray [1] [3])"
    by (simp add: warmGraph_fields pairClass_def reset_def)
  have warm: "fst (node_getValue cached warmGraph 1) = Inr (Some (NDArray [1] [7]))"
    by (simp add: node_getValue_def call_def cached_def warmGraph_fields pairClass_def)
  have cold: "fst (node_getValue cached (resetAll warmGraph) 1) = Inr None"
    by (simp add: node_getValue_def call_def cached_def warmGraph_fields pairClass_def
        heap_resetAll reset_def)
  from th have "feedForward cached warmGraph = node_getValue cached warmGraph 1" by blast
  then have ff: "fst (feedForward cached warmGraph) = Inr (Some (NDArray [1] [7]))"
    by (simp only: warm)
  from th have "getValue cached warmGraph = node_getValue cached (resetAll warmGraph) 1"
    by blast
  then have gv: "fst (getValue cached warmGraph) = Inr None"
    by (simp only: cold)
  from ff gv cleared kept show ?thesis
    by (simp add: warmGraph_fields)
qed

subsection \<open>The mode flags of makePredictions\<close>

text \<open>
  C3, as amended. With a CostOperation as final node: when the final node returns its
  predictions, makePredictions returns them and the mode flag of every registered node is
  training; when the final node raises, makePredictions passes the exception on from the
  state the node left, in which nothing has set the flags back.
\<close>

theorem makePredictions_mode_flags:
  assumes "finalOperation s = Some f" and "classOf s f = CostOperation"
  shows "(\<forall>pred h. opMakePredictions eng (heap (resetAll (setTesting True s))) f = (Inr pred, h) \<longrightarrow>
            fst (makePredictions eng s) = Inr pred \<and>
            (\<forall>a \<in> set (operations s). \<not> testing (heap (snd (makePredictions eng s)) a))) \<and>
         (\<forall>msg h. opMakePredictions eng (heap (resetAll (setTesting True s))) f = (Inl msg, h) \<longrightarrow>
            makePredictions eng s =
              (Inl (NodeFailure msg), (resetAll (setTesting True s))\<lparr>heap := h\<rparr>))"
proof -
  let ?s2 = "resetAll (setTesting True s)"
  have ops: "operations (?s2\<lparr>heap := h\<rparr>) = operations s" for h
    by (simp add: resetAll_def setTesting_def)
  have ok: "makePredictions eng s = (Inr pred, setTesting False (?s2\<lparr>heap := h\<rparr>))"
    if "opMakePredictions eng (heap ?s2) f = (Inr pred, h)" for pred h
    using assms that by (simp add: makePredictions_def Let_def call_def)
  have bad: "makePredictions eng s = (Inl (NodeFailure msg), ?s2\<lparr>heap := h\<rparr>)"
    if "opMakePredictions eng (heap ?s2) f = (Inl msg, h)" for msg h
    using assms that by (simp add: makePredictions_def Let_def call_def)
  have "\<not> testing (heap (setTesting False (?s2\<lparr>heap := h\<rparr>)) a)"
    if "a \<in> set (operations s)" for a h
    using that by (simp add: heap_setTesting ops)
  with ok bad show ?thesis by simp
qed

theorem makePredictions_mode_flags_witness:
  "finalOperation costGraph = Some 0 \<and> classOf costGraph 0 = CostOperation \<and>
   fst (makePredictions cached costGraph) = Inr None \<and>
   \<not> testing (heap (snd (makePredictions cached costGraph)) 0)"
  using makePredictions_mode_flags [OF costGraph_fields(1), of cached]
  by (simp add: costGraph_fields cached_def heap_resetAll heap_setTesting reset_def)

text \<open>
  The claim as stated fails where the final node raises: the one registered node is left
  in evaluation mode.
\<close>

theorem makePredictions_restore_counterexample:
  "finalOperation costGraph = Some 0 \<and> classOf costGraph 0 = CostOperation \<and>
   operations costGraph = [0] \<and>
   fst (makePredictions failing costGraph) = Inl (NodeFailure ''no predictions'') \<and>
   testing (heap (snd (makePredictions failing costGraph)) 0)"
  by (simp add: costGraph_fields makePredictions_def Let_def call_def failing_def
      heap_setTesting heap_resetAll reset_def)

subsection \<open>Gradient targets are Variables\<close>

lemma targetsAreVariables_graphOf:
  "graphOf s' = graphOf s \<Longrightarrow> targetsAreVariables s' = targetsAreVariables s"
  by (simp add: targetsAreVariables_def graphOf_def)

lemma targetsAreVariables_addOperation:
  "targetsAreVariables s \<Longrightarrow> targetsAreVariables (snd (addOperation s a d f e))"
  by (simp add: addOperation_def Let_def targetsAreVariables_def)

lemma targetsAreVariables_exec:
  "targetsAreVariables s \<Longrightarrow> targetsAreVariables (exec eng s m)"
proof (cases "isAdd m")
  case True
  assume "targetsAreVariables s"
  with True show ?thesis
    by (cases m) (simp_all add: targetsAreVariables_addOperation)
next
  case False
  assume "targetsAreVariables s"
  then show ?thesis
    using targetsAreVariables_graphOf [OF graphOf_exec [OF False]] by simp
qed

lemma targetsAreVariables_run:
  "targetsAreVariables s \<Longrightarrow> targetsAreVariables (run eng s ms)"
  unfolding run_def
  by (induction ms arbitrary: s) (simp_all add: targetsAreVariables_exec)

lemma unrollParametersLoop_no_violation:
  "list_all (\<lambda>a. classOf s a = Variable) ops \<Longrightarrow>
   unrollParametersLoop s ops acc \<noteq> Inl InternalInvariantViolation"
  by (induction ops arbitrary: acc) (auto simp: np_ravel_def split: sum.splits option.splits)

lemma attachLoop_no_violation:
  "list_all (\<lambda>a. classOf s a = Variable) ops \<Longrightarrow>
   fst (attachLoop s ops params p) \<noteq> Inl InternalInvariantViolation"
proof (induction ops arbitrary: s p)
  case Nil
  show ?case by simp
next
  case (Cons op ops)
  have "list_all (\<lambda>a. classOf (s\<lparr>heap := h\<rparr>) a = Variable) ops" for h
    using Cons.prems by simp
  from Cons.IH [OF this] Cons.prems show ?case
    by (auto simp: Let_def np_reshape_def split: sum.splits)
qed

lemma classOf_callD: "call f s a = (r, s') \<Longrightarrow> classOf s' = classOf s"
  by (rule graphOf_fields(8) [OF graphOf_callD])

lemma call_no_violation: "fst (call f s a) \<noteq> Inl InternalInvariantViolation"
  by (simp add: call_def split: prod.splits sum.splits)

lemma unrollGradientsLoop_no_violation:
  "list_all (\<lambda>a. classOf s a = Variable) ops \<Longrightarrow>
   fst (unrollGradientsLoop eng s ops acc) \<noteq> Inl InternalInvariantViolation"
proof (induction ops arbitrary: s acc)
  case Nil
  show ?case by simp
next
  case (Cons op ops)
  show ?case
  proof (cases "call (opGetGradient eng) s op")
    case (Pair r s')
    have cls: "classOf s' = classOf s" using Pair by (rule classOf_callD)
    then have rest: "list_all (\<lambda>a. classOf s' a = Variable) ops"
      using Cons.prems by simp
    show ?thesis
    proof (cases r)
      case (Inl e)
      with Pair call_no_violation [of "opGetGradient eng" s op] Cons.prems
      show ?thesis by simp
    next
      case (Inr g)
      with Pair Cons.prems Cons.IH [OF rest] show ?thesis
        by (simp add: np_ravel_def split: option.splits)
    qed
  qed
qed

text \<open>
  C9. After any run of public methods from a new graph, whatever the node methods do,
  every entry of the gradient-target list is a Variable (I3: addOperation checks the class
  before it appends, and nothing else writes the list), and neither
  unrollGradientParameters nor attachParameters nor unrollGradients ends in
  InternalInvariantViolation.
\<close>

theorem internal_violation_unreachable:
  "targetsAreVariables (run eng (init pw cls h) ms) \<and>
   fst (unrollGradientParameters (run eng (init pw cls h) ms)) \<noteq> Inl InternalInvariantViolation \<and>
   fst (attachParameters (run eng (init pw cls h) ms) params) \<noteq> Inl InternalInvariantViolation \<and>
   fst (unrollGradients eng (run eng (init pw cls h) ms)) \<noteq> Inl InternalInvariantViolation"
proof -
  have "targetsAreVariables (init pw cls h)"
    by (simp add: targetsAreVariables_def init_def)
  then have inv: "targetsAreVariables (run eng (init pw cls h) ms)"
    by (rule targetsAreVariables_run)
  then show ?thesis
    by (simp add: targetsAreVariables_def unrollGradientParameters_def attachParameters_def
        unrollGradients_def unrollParametersLoop_no_violation attachLoop_no_violation
        unrollGradientsLoop_no_violation)
qed

subsection \<open>Identifiers\<close>

lemma added_append: "added (ms @ ms') = added ms @ added ms'"
  by (induction ms rule: added.induct) simp_all

lemma run_snoc: "run eng s (ms @ [m]) = exec eng (run eng s ms) m"
  by (simp add: run_def)

lemma operations_addOperation [simp]:
  "operations (snd (addOperation s a d f e)) = operations s @ [a]"
  "nOperations (snd (addOperation s a d f e)) = nOperations s + 1"
  by (simp_all add: addOperation_def Let_def)

lemma heap_addOperation [simp]:
  "heap (snd (addOperation s a d f e)) =
     (heap s)(a := assignReferenceNumber (heap s a) (nOperations s))"
  by (simp add: addOperation_def Let_def)

lemma operations_exec:
  "operations (exec eng s m) = operations s @ added [m] \<and>
   nOperations (exec eng s m) = nOperations s + length (added [m])"
proof (cases "isAdd m")
  case True
  then show ?thesis by (cases m) simp_all
next
  case False
  then have "added [m] = []" by (cases m) simp_all
  with graphOf_fields(2,7) [OF graphOf_exec [OF False]] show ?thesis by simp
qed

lemma operations_run:
  "operations (run eng s ms) = operations s @ added ms \<and>
   nOperations (run eng s ms) = nOperations s + length (added ms)"
proof (induction ms rule: rev_induct)
  case Nil
  show ?case by (simp add: run_def)
next
  case (snoc m ms)
  then show ?case
    using operations_exec [of eng "run eng s ms" m]
    by (simp add: run_snoc added_append)
qed

lemma idsOf_heap_eq: "(\<And>b. referenceNumber (h b) = referenceNumber (heap s b)) \<Longrightarrow>
  idsOf (s\<lparr>heap := h\<rparr>) = idsOf s"
  by (simp add: idsOf_def)

lemma idsOf_call:
  assumes "\<And>h a b. referenceNumber (snd (f h a) b) = referenceNumber (h b)"
  shows "idsOf (snd (call f s a)) = idsOf s"
proof -
  have "referenceNumber (snd (f (heap s) a) b) = referenceNumber (heap s b)" for b
    by (rule assms)
  then show ?thesis
    by (cases "f (heap s) a") (auto simp: call_def idsOf_def split: sum.splits)
qed

lemma idsOf_callD:
  assumes "\<And>h a b. referenceNumber (snd (f h a) b) = referenceNumber (h b)"
    and "call f s a = (r, s')"
  shows "idsOf s' = idsOf s"
  using idsOf_call [of f s a, OF assms(1)] assms(2) by simp

lemma idsOf_attachLoop: "idsOf (snd (attachLoop s ops params p)) = idsOf s"
proof (induction ops arbitrary: s p)
  case Nil
  show ?case by simp
next
  case (Cons op ops)
  have "idsOf (s\<lparr>heap := (heap s)(op := assignData (heap s op) v)\<rparr>) = idsOf s" for v
    by (rule idsOf_heap_eq) (simp add: assignData_def)
  with Cons.IH show ?case
    by (simp add: Let_def split: sum.splits)
qed

lemma idsOf_resetAll: "idsOf (resetAll s) = idsOf s"
  by (simp add: idsOf_def heap_resetAll reset_def fun_eq_iff)

lemma idsOf_setTesting: "idsOf (setTesting b s) = idsOf s"
  by (simp add: idsOf_def heap_setTesting fun_eq_iff)

lemma idsOf_feedBackwardLoop:
  assumes "keepsIdentifiers eng"
  shows "idsOf (snd (feedBackwardLoop eng s ops acc)) = idsOf s"
proof (induction ops arbitrary: s acc)
  case Nil
  show ?case by simp
next
  case (Cons op ops)
  have k: "\<And>h a b. referenceNumber (snd (opGetGradient eng h a) b) = referenceNumber (h b)"
    using assms by (simp add: keepsIdentifiers_def)
  show ?case
    by (auto simp: Let_def Cons.IH split: prod.splits sum.splits dest: idsOf_callD [OF k])
qed

lemma idsOf_unrollGradientsLoop:
  assumes "keepsIdentifiers eng"
  shows "idsOf (snd (unrollGradientsLoop eng s ops acc)) = idsOf s"
proof (induction ops arbitrary: s acc)
  case Nil
  show ?case by simp
next
  case (Cons op ops)
  have k: "\<And>h a b. referenceNumber (snd (opGetGradient eng h a) b) = referenceNumber (h b)"
    using assms by (simp add: keepsIdentifiers_def)
  show ?case
    by (auto simp: Let_def Cons.IH split: prod.splits sum.splits dest: idsOf_callD [OF k])
qed

lemma idsOf_feedForward:
  assumes "keepsIdentifiers eng"
  shows "idsOf (snd (feedForward eng s)) = idsOf s"
proof -
  have k: "\<And>h a b. referenceNumber (snd (opGetValue eng h a) b) = referenceNumber (h b)"
    using assms by (simp add: keepsIdentifiers_def)
  show ?thesis
    by (simp add: feedForward_def node_getValue_def idsOf_call [OF k] split: option.splits)
qed

lemma idsOf_makePredictions:
  assumes "keepsIdentifiers eng"
  shows "idsOf (snd (makePredictions eng s)) = idsOf s"
proof -
  have k: "\<And>h a b. referenceNumber (snd (opMakePredictions eng h a) b) = referenceNumber (h b)"
    using assms by (simp add: keepsIdentifiers_def)
  show ?thesis
    by (auto simp: makePredictions_def Let_def idsOf_setTesting idsOf_resetAll
        split: option.splits prod.splits sum.splits dest!: idsOf_callD [OF k])
qed

lemma idsOf_exec:
  assumes "keepsIdentifiers eng" and "\<not> isAdd m"
  shows "idsOf (exec eng s m) = idsOf s"
  using assms(2)
  by (cases m)
     (simp_all add: unrollGradientParameters_def attachParameters_def getValue_def
        feedBackward_def getGradients_def unrollGradients_def idsOf_attachLoop
        idsOf_feedForward [OF assms(1)] idsOf_resetAll idsOf_feedBackwardLoop [OF assms(1)]
        idsOf_makePredictions [OF assms(1)] idsOf_unrollGradientsLoop [OF assms(1)])

lemma numbered_exec:
  assumes "keepsIdentifiers eng" and "numbered s" and "nOperations s = length (operations s)"
    and "distinct (operations s @ added [m])"
  shows "numbered (exec eng s m)"
proof (cases "isAdd m")
  case False
  then have "added [m] = []" by (cases m) simp_all
  with assms(2) idsOf_exec [OF assms(1) False, of s] operations_exec [of eng s m]
  show ?thesis by (simp add: numbered_def)
next
  case True
  then obtain a d f e where m: "m = AddOperation a d f e" by (cases m) simp_all
  with assms(4) have fresh: "a \<notin> set (operations s)" by simp
  have "map (idsOf (snd (addOperation s a d f e))) (operations s) = map (idsOf s) (operations s)"
    using fresh by (auto simp: idsOf_def)
  also have "\<dots> = map Some [0..<length (operations s)]"
    using assms(2) by (simp only: numbered_def)
  finally have old: "map (idsOf (snd (addOperation s a d f e))) (operations s) =
      map Some [0..<length (operations s)]" .
  have new: "idsOf (snd (addOperation s a d f e)) a = Some (length (operations s))"
    using assms(3) by (simp add: idsOf_def assignReferenceNumber_def)
  show ?thesis
    by (simp add: m numbered_def old new)
qed

lemma numbered_run:
  assumes "keepsIdentifiers eng" and "distinct (added ms)"
  shows "numbered (run eng (init pw cls h) ms)"
  using assms(2)
proof (induction ms rule: rev_induct)
  case Nil
  show ?case by (simp add: run_def numbered_def init_def)
next
  case (snoc m ms)
  let ?s = "run eng (init pw cls h) ms"
  have ops: "operations ?s = added ms" "nOperations ?s = length (operations ?s)"
    using operations_run [of eng "init pw cls h" ms] by (simp_all add: init_def)
  have "numbered ?s" using snoc by (simp add: added_append)
  moreover have "distinct (operations ?s @ added [m])"
    using snoc.prems by (simp add: ops added_append)
  ultimately show ?case
    using numbered_exec [OF assms(1) _ ops(2)] by (simp add: run_snoc)
qed

text \<open>
  C6, as amended. After any run of public methods from a new graph, the node sequence is
  the sequence of registered nodes, the counter is its length, and a further addOperation
  gives its node the identifier equal to the number of registrations before it. If no
  node is registered twice and the node methods do not write identifiers, the k-th node of
  the sequence carries the identifier k at every later moment: no graph operation has
  changed it.
\<close>

theorem identifiers_follow_insertion:
  assumes "s = run eng (init pw cls h) ms"
  shows "operations s = added ms \<and> nOperations s = length (operations s) \<and>
         referenceNumber (heap (snd (addOperation s a doGradient isFinal isFeeder)) a) =
           Some (length (operations s)) \<and>
         (keepsIdentifiers eng \<and> distinct (added ms) \<longrightarrow>
            (\<forall>k < length (operations s).
               referenceNumber (heap s (operations s ! k)) = Some k))"
proof -
  have ops: "operations s = added ms" "nOperations s = length (operations s)"
    using operations_run [of eng "init pw cls h" ms] assms by (simp_all add: init_def)
  have "referenceNumber (heap s (operations s ! k)) = Some k"
    if "keepsIdentifiers eng" "distinct (added ms)" "k < length (operations s)" for k
  proof -
    have "map (idsOf s) (operations s) ! k = map Some [0..<length (operations s)] ! k"
      using numbered_run [OF that(1,2), of pw cls h] assms by (simp add: numbered_def)
    with that(3) show ?thesis by (simp add: idsOf_def)
  qed
  with ops show ?thesis by (simp add: assignReferenceNumber_def)
qed

theorem identifiers_follow_insertion_witness:
  "keepsIdentifiers (cached :: real capability) \<and>
   distinct (added [AddOperation 0 True False True, GetValue, AddOperation 1 False True False :: real graphMethod]) \<and>
   operations (run cached (init True pairClass pairHeap)
      [AddOperation 0 True False True, GetValue, AddOperation 1 False True False]) = [0, 1] \<and>
   nOperations (run cached (init True pairClass pairHeap)
      [AddOperation 0 True False True, GetValue, AddOperation 1 False True False]) = 2 \<and>
   referenceNumber (heap (run cached (init True pairClass pairHeap)
      [AddOperation 0 True False True, GetValue, AddOperation 1 False True False]) 0) = Some 0 \<and>
   referenceNumber (heap (run cached (init True pairClass pairHeap)
      [AddOperation 0 True False True, GetValue, AddOperation 1 False True False]) 1) = Some 1"
proof -
  let ?ms = "[AddOperation 0 True False True, GetValue, AddOperation 1 False True False :: real graphMethod]"
  let ?s = "run cached (init True pairClass pairHeap) ?ms"
  have k: "keepsIdentifiers (cached :: real capability)"
    by (simp add: keepsIdentifiers_def cached_def)
  have d: "distinct (added ?ms)" by simp
  note t = identifiers_follow_insertion [OF refl, of cached True pairClass pairHeap ?ms 0 False False False]
  from t have ops: "operations ?s = [0, 1]" and n: "nOperations ?s = length (operations ?s)" by simp_all
  from t k d have all: "\<forall>k < length (operations ?s). referenceNumber (heap ?s (operations ?s ! k)) = Some k"
    by blast
  from all [rule_format, of 0] all [rule_format, of 1] ops n k d show ?thesis by simp
qed

text \<open>
  The claim as stated fails when a node is registered a second time: the identifier it
  received first is overwritten, and the first node of the sequence carries 1.
\<close>

theorem identifier_overwritten_counterexample:
  "referenceNumber (heap (run failing (init True (\<lambda>a. Variable) (\<lambda>a. freshNode :: real node))
      [AddOperation 0 False False False]) 0) = Some 0 \<and>
   operations (run failing (init True (\<lambda>a. Variable) (\<lambda>a. freshNode :: real node))
      [AddOperation 0 False False False, AddOperation 0 False False False]) = [0, 0] \<and>
   referenceNumber (heap (run failing (init True (\<lambda>a. Variable) (\<lambda>a. freshNode :: real node))
      [AddOperation 0 False False False, AddOperation 0 False False False]) 0) = Some 1"
  by (simp add: run_def init_def assignReferenceNumber_def)

subsection \<open>The sink list\<close>

lemma set_removeConsumed:
  "distinct cur \<Longrightarrow>
   set (removeConsumed h a xs cur) = set cur - {x \<in> set xs. a \<in> set (outputs (h x))} \<and>
   distinct (removeConsumed h a xs cur)"
  by (induction xs arbitrary: cur) auto

lemma inputsRegistered_append:
  "inputsRegistered h seen (rest @ [a]) =
     (inputsRegistered h seen rest \<and> list_all (\<lambda>b. b \<in> set (seen @ rest)) (inputs (h a)))"
  by (induction rest arbitrary: seen) auto

lemma endOperations_addOperation [simp]:
  "endOperations (snd (addOperation s a d f e)) =
     removeConsumed (heap s) a (endOperations s @ [a]) (endOperations s @ [a])"
  by (simp add: addOperation_def Let_def endOperations_register)

lemma sinks_addOperation:
  assumes refs: "backReferences h"
    and inv: "closedInputs h s" "sinksExact s"
    and fresh: "a \<notin> set (operations s)"
    and deps: "set (inputs (h a)) \<subseteq> set (operations s)"
  shows "closedInputs h (snd (addOperation s a d f e)) \<and> sinksExact (snd (addOperation s a d f e))"
proof -
  let ?s' = "snd (addOperation s a d f e)"
  let ?E = "endOperations s @ [a]"
  have same: "\<And>b. inputs (heap s b) = inputs (h b)" "\<And>b. outputs (heap s b) = outputs (h b)"
    using inv(1) by (simp_all add: closedInputs_def)
  have sub: "set (endOperations s) \<subseteq> set (operations s)"
    using inv(2) by (auto simp: sinksExact_def)
  with fresh inv(1) have dist: "distinct ?E"
    by (auto simp: closedInputs_def)
  note rc = set_removeConsumed [OF dist, of "heap s" a ?E]
  have same': "\<And>b. inputs (heap ?s' b) = inputs (h b)" "\<And>b. outputs (heap ?s' b) = outputs (h b)"
    using same by (simp_all add: assignReferenceNumber_def)
  have noself: "a \<notin> set (inputs (h a))" using fresh deps by auto
  have nouse: "\<And>m. m \<in> set (operations s) \<Longrightarrow> a \<notin> set (inputs (h m))"
    using inv(1) fresh by (auto simp: closedInputs_def)
  have out: "\<And>x. (a \<in> set (outputs (heap s x))) = (x \<in> set (inputs (h a)))"
    using refs by (simp add: same backReferences_def)
  have closed: "closedInputs h ?s'"
    using rc inv(1) deps same' by (auto simp: closedInputs_def)
  have "set (endOperations ?s') = (set (endOperations s) \<union> {a}) - set (inputs (h a))"
    using rc out by auto
  also have "\<dots> = {n \<in> set (operations s) \<union> {a}.
                    \<forall>m \<in> set (operations s) \<union> {a}. n \<notin> set (inputs (h m))}"
    using inv(2) noself nouse by (auto simp: sinksExact_def same)
  finally have "sinksExact ?s'"
    unfolding sinksExact_def same' by simp
  with closed show ?thesis by simp
qed

lemma sinks_run:
  assumes refs: "backReferences h"
    and adds: "list_all isAdd ms"
    and deps: "inputsRegistered h [] (added ms)"
    and dist: "distinct (added ms)"
  shows "closedInputs h (run eng (init pw cls h) ms) \<and> sinksExact (run eng (init pw cls h) ms)"
  using adds deps dist
proof (induction ms rule: rev_induct)
  case Nil
  show ?case by (simp add: run_def init_def closedInputs_def sinksExact_def)
next
  case (snoc m ms)
  let ?s = "run eng (init pw cls h) ms"
  from snoc.prems(1) obtain a d f e where m: "m = AddOperation a d f e"
    by (cases m) simp_all
  have ops: "operations ?s = added ms"
    using operations_run [of eng "init pw cls h" ms] by (simp add: init_def)
  have prem: "list_all isAdd ms" "inputsRegistered h [] (added ms)" "distinct (added ms)"
    using snoc.prems by (simp_all add: added_append inputsRegistered_append m)
  have fresh: "a \<notin> set (operations ?s)"
    using snoc.prems(3) by (simp add: added_append m ops)
  have sub: "set (inputs (h a)) \<subseteq> set (operations ?s)"
    using snoc.prems(2) by (auto simp: added_append m ops inputsRegistered_append list_all_iff)
  from snoc.IH [OF prem] sinks_addOperation [OF refs _ _ fresh sub]
  show ?case by (simp add: run_snoc m)
qed

text \<open>
  C5, as amended. After a sequence of addOperation calls (failed ones included) in which
  the inputs of every node were registered before it (I2) and no node is registered twice,
  the sink list holds exactly the registered nodes that no registered node lists among
  its inputs. The outputs of the nodes are taken to be the back-references of their
  inputs, as the node constructors keep them.
\<close>

theorem sinks_are_unconsumed_nodes:
  assumes "backReferences h" and "list_all isAdd ms"
    and "inputsRegistered h [] (added ms)" and "distinct (added ms)"
    and "s = run eng (init pw cls h) ms"
  shows "set (endOperations s) =
           {n \<in> set (operations s). \<forall>m \<in> set (operations s). n \<notin> set (inputs (heap s m))}"
  using sinks_run [OF assms(1-4), of eng pw cls] assms(5) by (simp add: sinksExact_def)

lemma backReferences_pairHeap: "backReferences pairHeap"
  by (auto simp: backReferences_def pairHeap_def freshNode_def)

theorem sinks_are_unconsumed_nodes_witness:
  "backReferences pairHeap \<and>
   list_all isAdd [AddOperation 0 True False False, AddOperation 1 False True False :: real graphMethod] \<and>
   inputsRegistered pairHeap []
     (added [AddOperation 0 True False False, AddOperation 1 False True False :: real graphMethod]) \<and>
   distinct (added [AddOperation 0 True False False, AddOperation 1 False True False :: real graphMethod]) \<and>
   operations (run failing (init True pairClass pairHeap)
        [AddOperation 0 True False False, AddOperation 1 False True False]) = [0, 1] \<and>
   endOperations (run failing (init True pairClass pairHeap)
        [AddOperation 0 True False False, AddOperation 1 False True False]) = [1] \<and>
   set (endOperations (run failing (init True pairClass pairHeap)
        [AddOperation 0 True False False, AddOperation 1 False True False])) =
     {n \<in> set (operations (run failing (init True pairClass pairHeap)
        [AddOperation 0 True False False, AddOperation 1 False True False])).
      \<forall>m \<in> set (operations (run failing (init True pairClass pairHeap)
        [AddOperation 0 True False False, AddOperation 1 False True False])).
        n \<notin> set (inputs (heap (run failing (init True pairClass pairHeap)
        [AddOperation 0 True False False, AddOperation 1 False True False]) m))}"
proof -
  let ?ms = "[AddOperation 0 True False False, AddOperation 1 False True False :: real graphMethod]"
  have a: "list_all isAdd ?ms" by simp
  have b: "inputsRegistered pairHeap [] (added ?ms)"
    by (simp add: pairHeap_def freshNode_def)
  have c: "distinct (added ?ms)" by simp
  have d: "operations (run failing (init True pairClass pairHeap) ?ms) = [0, 1]"
    by (simp add: run_def init_def)
  have e: "endOperations (run failing (init True pairClass pairHeap) ?ms) = [1]"
    by (simp add: run_def init_def pairHeap_def freshNode_def assignReferenceNumber_def)
  from sinks_are_unconsumed_nodes [OF backReferences_pairHeap a b c refl, of failing True pairClass]
    backReferences_pairHeap a b c d e
  show ?thesis by blast
qed

text \<open>
  The claim as stated fails when a node is registered again after a consumer of it: the
  inputs of every inserted node are registered, yet node 0 is in the sink list and is an
  input of the registered node 1.
\<close>

theorem sink_registered_twice_counterexample:
  "backReferences pairHeap \<and>
   inputsRegistered pairHeap [] [0, 1, 0] \<and>
   fst (addOperation (run failing (init True pairClass pairHeap)
        [AddOperation 0 True False False, AddOperation 1 False True False]) 0 False False False) = Inr 0 \<and>
   operations (run failing (init True pairClass pairHeap)
        [AddOperation 0 True False False, AddOperation 1 False True False,
         AddOperation 0 False False False]) = [0, 1, 0] \<and>
   endOperations (run failing (init True pairClass pairHeap)
        [AddOperation 0 True False False, AddOperation 1 False True False,
         AddOperation 0 False False False]) = [1, 0] \<and>
   inputs (heap (run failing (init True pairClass pairHeap)
        [AddOperation 0 True False False, AddOperation 1 False True False,
         AddOperation 0 False False False]) 1) = [0]"
proof -
  have "inputsRegistered pairHeap [] [0, 1, 0]"
    by (simp add: pairHeap_def freshNode_def)
  moreover have "fst (addOperation (run failing (init True pairClass pairHeap)
        [AddOperation 0 True False False, AddOperation 1 False True False]) 0 False False False) = Inr 0"
    by (simp add: addOperation_def Let_def)
  moreover have "operations (run failing (init True pairClass pairHeap)
        [AddOperation 0 True False False, AddOperation 1 False True False,
         AddOperation 0 False False False]) = [0, 1, 0]"
    by (simp add: run_def init_def)
  moreover have "endOperations (run failing (init True pairClass pairHeap)
        [AddOperation 0 True False False, AddOperation 1 False True False,
         AddOperation 0 False False False]) = [1, 0]"
    by (simp add: run_def init_def pairHeap_def freshNode_def assignReferenceNumber_def)
  moreover have "inputs (heap (run failing (init True pairClass pairHeap)
        [AddOperation 0 True False False, AddOperation 1 False True False,
         AddOperation 0 False False False]) 1) = [0]"
    by (simp add: run_def init_def pairHeap_def freshNode_def assignReferenceNumber_def)
  ultimately show ?thesis
    using backReferences_pairHeap by simp
qed

subsection \<open>attachParameters and the length of the vector\<close>

lemma attachLoop_step_ready:
  assumes "codecReady s (op # ops)"
    and "np_reshape (slice params p (elementCount s op)) (shape (heap s op)) = Inr v"
  shows "codecReady (s\<lparr>heap := (heap s)(op := assignData (heap s op) v)\<rparr>) ops \<and>
         elementCount (s\<lparr>heap := (heap s)(op := assignData (heap s op) v)\<rparr>) = elementCount s"
proof -
  from assms(2) have v: "v = NDArray (shape (heap s op)) (slice params p (elementCount s op))"
    and len: "prod_list (shape (heap s op)) = length (slice params p (elementCount s op))"
    by (auto simp: np_reshape_def split: if_splits)
  from assms(1) have "prod_list (shape (heap s op)) = elementCount s op"
    by (simp add: codecReady_def elementCount_def)
  with len have n: "length (ravel v) = elementCount s op" by (simp add: v)
  have "elementCount (s\<lparr>heap := (heap s)(op := assignData (heap s op) v)\<rparr>) x = elementCount s x" for x
    using n by (simp add: elementCount_def assignData_def np_size_def)
  moreover have "codecReady (s\<lparr>heap := (heap s)(op := assignData (heap s op) v)\<rparr>) ops"
    using assms(1) n len
    by (auto simp: codecReady_def list_all_iff assignData_def np_size_def v elementCount_def)
  ultimately show ?thesis by (simp add: fun_eq_iff)
qed

lemma reshape_fits:
  assumes "prod_list shp = n" and "p \<le> length params"
  shows "(\<exists>v. np_reshape (slice params p n) shp = Inr v) = (p + n \<le> length params)"
    and "\<not> p + n \<le> length params \<Longrightarrow> np_reshape (slice params p n) shp = Inl ReshapeMismatch"
  using assms by (auto simp: np_reshape_def slice_def min_def)

lemma attachLoop_length:
  assumes "codecReady s ops" and "p \<le> length params"
  shows "fst (attachLoop s ops params p) =
           (if p + sum_list (map (elementCount s) ops) \<le> length params
            then Inr () else Inl ReshapeMismatch)"
  using assms
proof (induction ops arbitrary: s p)
  case Nil
  then show ?case by simp
next
  case (Cons op ops)
  let ?n = "elementCount s op"
  have var: "classOf s op = Variable" and shp: "prod_list (shape (heap s op)) = ?n"
    using Cons.prems(1) by (simp_all add: codecReady_def elementCount_def)
  have np: "np_size (result (heap s op)) = ?n" by (simp add: elementCount_def)
  show ?case
  proof (cases "p + ?n \<le> length params")
    case False
    with reshape_fits(2) [OF shp Cons.prems(2)] var show ?thesis
      by (simp add: np Let_def)
  next
    case True
    with reshape_fits(1) [OF shp Cons.prems(2)]
    obtain v where v: "np_reshape (slice params p ?n) (shape (heap s op)) = Inr v" by blast
    let ?s' = "s\<lparr>heap := (heap s)(op := assignData (heap s op) v)\<rparr>"
    note st = attachLoop_step_ready [OF Cons.prems(1) v]
    from Cons.IH [of ?s' "p + ?n"] st True
    have "fst (attachLoop ?s' ops params (p + ?n)) =
           (if p + ?n + sum_list (map (elementCount s) ops) \<le> length params
            then Inr () else Inl ReshapeMismatch)"
      by simp
    with v var show ?thesis
      by (simp add: Let_def np add.assoc)
  qed
qed

lemma slice_take:
  "p + n \<le> k \<Longrightarrow> slice (take k params) p n = slice params p n"
  by (simp add: slice_def drop_take min_def)

lemma attachLoop_surplus:
  assumes "codecReady s ops" and "p + sum_list (map (elementCount s) ops) \<le> k"
  shows "attachLoop s ops (take k params) p = attachLoop s ops params p"
  using assms
proof (induction ops arbitrary: s p)
  case Nil
  show ?case by simp
next
  case (Cons op ops)
  let ?n = "elementCount s op"
  have np: "np_size (result (heap s op)) = ?n" by (simp add: elementCount_def)
  have sl: "slice (take k params) p ?n = slice params p ?n"
    using Cons.prems(2) by (intro slice_take) simp
  show ?case
  proof (cases "np_reshape (slice params p ?n) (shape (heap s op))")
    case (Inl e)
    with sl show ?thesis by (simp add: Let_def np)
  next
    case (Inr v)
    let ?s' = "s\<lparr>heap := (heap s)(op := assignData (heap s op) v)\<rparr>"
    note st = attachLoop_step_ready [OF Cons.prems(1) Inr]
    have "attachLoop ?s' ops (take k params) (p + ?n) = attachLoop ?s' ops params (p + ?n)"
      using st Cons.prems(2) by (intro Cons.IH) (simp_all add: add.assoc)
    with Inr sl show ?thesis by (simp add: Let_def np)
  qed
qed

lemma fittingTargets_le: "fittingTargets ns p len \<le> length ns"
  by (induction ns arbitrary: p) simp_all

lemma fittingTargets_prefix:
  "p \<le> len \<Longrightarrow> p + sum_list (take (fittingTargets ns p len) ns) \<le> len"
proof (induction ns arbitrary: p)
  case Nil
  then show ?case by simp
next
  case (Cons n ns)
  show ?case
  proof (cases "p + n \<le> len")
    case True
    from Cons.IH [OF True] True show ?thesis by (simp add: add.assoc)
  next
    case False
    with Cons.prems show ?thesis by simp
  qed
qed

lemma fittingTargets_all:
  "p \<le> len \<Longrightarrow> (fittingTargets ns p len = length ns) = (p + sum_list ns \<le> len)"
proof (induction ns arbitrary: p)
  case Nil
  then show ?case by simp
next
  case (Cons n ns)
  show ?case
  proof (cases "p + n \<le> len")
    case True
    from Cons.IH [OF True] True show ?thesis by (simp add: add.assoc)
  next
    case False
    then show ?thesis by simp
  qed
qed

lemma fittingTargets_short:
  "fittingTargets ns p len < length ns \<Longrightarrow>
   len < p + sum_list (take (fittingTargets ns p len) ns) + ns ! fittingTargets ns p len"
proof (induction ns arbitrary: p)
  case Nil
  then show ?case by simp
next
  case (Cons n ns)
  show ?case
  proof (cases "p + n \<le> len")
    case True
    with Cons.prems have "fittingTargets ns (p + n) len < length ns" by simp
    from Cons.IH [OF this] True show ?thesis by (simp add: add.assoc)
  next
    case False
    then show ?thesis by simp
  qed
qed

lemma attachLoop_prefix:
  assumes "codecReady s ops" and "p \<le> length params"
  shows "attachLoop s ops params p =
           (if fittingTargets (map (elementCount s) ops) p (length params) = length ops
            then Inr () else Inl ReshapeMismatch,
            snd (attachLoop s
                   (take (fittingTargets (map (elementCount s) ops) p (length params)) ops)
                   params p)) \<and>
         fst (attachLoop s
                (take (fittingTargets (map (elementCount s) ops) p (length params)) ops)
                params p) = Inr ()"
  using assms
proof (induction ops arbitrary: s p)
  case Nil
  show ?case by simp
next
  case (Cons op ops)
  let ?n = "elementCount s op"
  have var: "classOf s op = Variable" and shp: "prod_list (shape (heap s op)) = ?n"
    using Cons.prems(1) by (simp_all add: codecReady_def elementCount_def)
  have np: "np_size (result (heap s op)) = ?n" by (simp add: elementCount_def)
  show ?case
  proof (cases "p + ?n \<le> length params")
    case False
    with reshape_fits(2) [OF shp Cons.prems(2)] var show ?thesis
      by (simp add: np Let_def)
  next
    case True
    with reshape_fits(1) [OF shp Cons.prems(2)]
    obtain v where v: "np_reshape (slice params p ?n) (shape (heap s op)) = Inr v" by blast
    let ?s' = "s\<lparr>heap := (heap s)(op := assignData (heap s op) v)\<rparr>"
    note st = attachLoop_step_ready [OF Cons.prems(1) v]
    let ?k = "fittingTargets (map (elementCount s) ops) (p + ?n) (length params)"
    from Cons.IH [of ?s' "p + ?n"] st True
    have ih: "attachLoop ?s' ops params (p + ?n) =
           (if ?k = length ops then Inr () else Inl ReshapeMismatch,
            snd (attachLoop ?s' (take ?k ops) params (p + ?n))) \<and>
         fst (attachLoop ?s' (take ?k ops) params (p + ?n)) = Inr ()"
      by simp
    have step: "attachLoop s (op # xs) params p = attachLoop ?s' xs params (p + ?n)" for xs
      using v var by (simp add: Let_def np)
    from True ih show ?thesis
      by (simp only: step list.map fittingTargets.simps if_True take_Suc_Cons list.size
          length_Cons nat.inject) simp
  qed
qed

lemma attachLoop_frame:
  "a \<notin> set ops \<Longrightarrow> heap (snd (attachLoop s ops params p)) a = heap s a"
  by (induction ops arbitrary: s p) (auto simp: Let_def split: sum.splits)

lemma attachLoop_assigned:
  assumes "codecReady s ops" and "distinct ops"
    and "fst (attachLoop s ops params p) = Inr ()" and "i < length ops"
  shows "heap (snd (attachLoop s ops params p)) (ops ! i) =
           assignData (heap s (ops ! i))
             (NDArray (shape (heap s (ops ! i)))
                (slice params (p + sum_list (map (elementCount s) (take i ops)))
                   (elementCount s (ops ! i))))"
  using assms
proof (induction ops arbitrary: s p i)
  case Nil
  then show ?case by simp
next
  case (Cons op ops)
  let ?n = "elementCount s op"
  have var: "classOf s op = Variable"
    using Cons.prems(1) by (simp add: codecReady_def)
  have np: "np_size (result (heap s op)) = ?n" by (simp add: elementCount_def)
  from Cons.prems(3) var obtain v where
    v: "np_reshape (slice params p ?n) (shape (heap s op)) = Inr v"
    by (cases "np_reshape (slice params p ?n) (shape (heap s op))") (simp_all add: Let_def np)
  then have vdef: "v = NDArray (shape (heap s op)) (slice params p ?n)"
    by (auto simp: np_reshape_def split: if_splits)
  let ?s' = "s\<lparr>heap := (heap s)(op := assignData (heap s op) v)\<rparr>"
  note st = attachLoop_step_ready [OF Cons.prems(1) v]
  have step: "attachLoop s (op # ops) params p = attachLoop ?s' ops params (p + ?n)"
    using v var by (simp add: Let_def np)
  have notin: "op \<notin> set ops" and dist: "distinct ops"
    using Cons.prems(2) by simp_all
  show ?case
  proof (cases i)
    case 0
    have "heap (snd (attachLoop ?s' ops params (p + ?n))) op = heap ?s' op"
      using notin by (rule attachLoop_frame)
    with 0 show ?thesis by (simp only: step) (simp add: vdef)
  next
    case (Suc j)
    with Cons.prems(4) have j: "j < length ops" by simp
    then have neq: "ops ! j \<noteq> op" using notin by (metis nth_mem)
    have ok: "fst (attachLoop ?s' ops params (p + ?n)) = Inr ()"
      using Cons.prems(3) by (simp only: step)
    from Cons.IH [OF conjunct1 [OF st] dist ok j]
    have "heap (snd (attachLoop ?s' ops params (p + ?n))) (ops ! j) =
           assignData (heap ?s' (ops ! j))
             (NDArray (shape (heap ?s' (ops ! j)))
                (slice params (p + ?n + sum_list (map (elementCount ?s') (take j ops)))
                   (elementCount ?s' (ops ! j))))" .
    then show ?thesis
      using neq by (simp only: step Suc conjunct2 [OF st]) (simp add: add.assoc)
  qed
qed

lemma codecReady_take: "codecReady s ops \<Longrightarrow> codecReady s (take k ops)"
  by (auto simp: codecReady_def list_all_iff dest: in_set_takeD)

lemma offset_take:
  "offset s i = sum_list (take i (map (elementCount s) (gradientOps s)))"
  by (simp only: offset_def take_map)

text \<open>
  C2, as amended. There is no length check of its own in attachParameters. For targets
  that are Variables whose shapes hold as many elements as their data: a vector shorter
  than the sum of the element counts makes attachParameters fail, with the error of
  np.reshape, at the first target whose slice comes out short (\<open>firstShort\<close>: what
  precedes it fits into the vector, it does not); the state left is the one the loop
  leaves after completing the targets before it, so each of them holds its slice of the
  vector (stated for a target list without repetition) and every other node is as it was.
  A vector at least as long as the sum is accepted, and the entries beyond the sum are
  ignored (the call does what it does on the vector cut to the sum). Slices are clipped,
  so nothing is read out of bounds.
\<close>

theorem attachParameters_length:
  assumes "codecReady s (gradientOps s)"
  shows "(length params < totalCount s \<longrightarrow>
            fst (attachParameters s params) = Inl ReshapeMismatch) \<and>
         (totalCount s \<le> length params \<longrightarrow>
            fst (attachParameters s params) = Inr () \<and>
            attachParameters s params = attachParameters s (take (totalCount s) params)) \<and>
         (length params < totalCount s \<longrightarrow>
            firstShort s params < length (gradientOps s) \<and>
            offset s (firstShort s params) \<le> length params \<and>
            length params < offset s (firstShort s params) +
              elementCount s (gradientOps s ! firstShort s params)) \<and>
         snd (attachParameters s params) =
           snd (attachLoop s (take (firstShort s params) (gradientOps s)) params 0) \<and>
         fst (attachLoop s (take (firstShort s params) (gradientOps s)) params 0) = Inr () \<and>
         (\<forall>a. a \<notin> set (take (firstShort s params) (gradientOps s)) \<longrightarrow>
            heap (snd (attachParameters s params)) a = heap s a) \<and>
         (distinct (gradientOps s) \<longrightarrow>
            (\<forall>i < firstShort s params.
               heap (snd (attachParameters s params)) (gradientOps s ! i) =
                 assignData (heap s (gradientOps s ! i))
                   (NDArray (shape (heap s (gradientOps s ! i)))
                      (slice params (offset s i) (elementCount s (gradientOps s ! i))))))"
proof -
  let ?ops = "gradientOps s"
  let ?ns = "map (elementCount s) ?ops"
  let ?k = "firstShort s params"
  have k: "?k = fittingTargets ?ns 0 (length params)" by (simp add: firstShort_def)
  have kle: "?k \<le> length ?ops"
    using fittingTargets_le [of ?ns 0 "length params"] by (simp add: k)
  have old: "(length params < totalCount s \<longrightarrow>
            fst (attachParameters s params) = Inl ReshapeMismatch) \<and>
         (totalCount s \<le> length params \<longrightarrow>
            fst (attachParameters s params) = Inr () \<and>
            attachParameters s params = attachParameters s (take (totalCount s) params))"
    using attachLoop_length [OF assms, of 0 params]
      attachLoop_surplus [OF assms, of 0 "totalCount s" params]
    by (simp add: attachParameters_def totalCount_def)
  have short: "?k < length ?ops \<and> offset s ?k \<le> length params \<and>
      length params < offset s ?k + elementCount s (?ops ! ?k)"
    if "length params < totalCount s"
  proof -
    from that fittingTargets_all [of 0 "length params" ?ns]
    have "?k \<noteq> length ?ops" by (simp add: k totalCount_def)
    with kle have lt: "?k < length ?ops" by simp
    then have "fittingTargets ?ns 0 (length params) < length ?ns" by (simp add: k)
    from fittingTargets_short [OF this]
    have "length params < offset s ?k + ?ns ! ?k"
      by (simp add: offset_take k)
    moreover have "?ns ! ?k = elementCount s (?ops ! ?k)" using lt by simp
    moreover have "offset s ?k \<le> length params"
      using fittingTargets_prefix [of 0 "length params" ?ns] by (simp add: offset_take k)
    ultimately show ?thesis using lt by simp
  qed
  from attachLoop_prefix [OF assms, of 0 params]
  have st: "snd (attachParameters s params) = snd (attachLoop s (take ?k ?ops) params 0)"
    and ok: "fst (attachLoop s (take ?k ?ops) params 0) = Inr ()"
    by (simp_all add: attachParameters_def k)
  have frame: "heap (snd (attachParameters s params)) a = heap s a"
    if "a \<notin> set (take ?k ?ops)" for a
    unfolding st using that by (rule attachLoop_frame)
  have assigned: "heap (snd (attachParameters s params)) (?ops ! i) =
                 assignData (heap s (?ops ! i))
                   (NDArray (shape (heap s (?ops ! i)))
                      (slice params (offset s i) (elementCount s (?ops ! i))))"
    if d: "distinct ?ops" and i: "i < ?k" for i
  proof -
    have il: "i < length (take ?k ?ops)" using i kle by simp
    have nth: "take ?k ?ops ! i = ?ops ! i" using i by simp
    have tk: "take i (take ?k ?ops) = take i ?ops" using i by (simp add: min_def)
    from attachLoop_assigned [OF codecReady_take [OF assms] distinct_take [OF d] ok il]
    show ?thesis
      by (simp only: st nth tk offset_def add_0)
  qed
  from old short st ok frame assigned show ?thesis by blast
qed

theorem attachParameters_length_witness:
  "codecReady twoParameters (gradientOps twoParameters) \<and> totalCount twoParameters = 3 \<and>
   distinct (gradientOps twoParameters) \<and>
   firstShort twoParameters [8, 9] = 1 \<and>
   fst (attachParameters twoParameters [8, 9]) = Inl ReshapeMismatch \<and>
   result (heap (snd (attachParameters twoParameters [8, 9])) 0) = Some (NDArray [2] [8, 9]) \<and>
   heap (snd (attachParameters twoParameters [8, 9])) 1 = heap twoParameters 1 \<and>
   fst (attachParameters twoParameters [8, 9, 10, 11]) = Inr () \<and>
   attachParameters twoParameters [8, 9, 10, 11] = attachParameters twoParameters [8, 9, 10]"
proof -
  have ec: "elementCount twoParameters 0 = 2" "elementCount twoParameters (Suc 0) = 1"
    by (simp_all add: elementCount_def np_size_def twoParameters_fields freshNode_def)
  have r: "codecReady twoParameters (gradientOps twoParameters)"
    by (simp add: codecReady_def twoParameters_fields np_size_def freshNode_def)
  have t: "totalCount twoParameters = 3"
    by (simp add: totalCount_def twoParameters_fields ec)
  have d: "distinct (gradientOps twoParameters)"
    by (simp add: twoParameters_fields)
  have k: "firstShort twoParameters [8, 9] = 1"
    by (simp add: firstShort_def twoParameters_fields ec)
  note th = attachParameters_length [OF r, of "[8, 9]"]
  note tl = attachParameters_length [OF r, of "[8, 9, 10, 11]"]
  have short: "length [8, 9 :: real] < totalCount twoParameters"
    and long: "totalCount twoParameters \<le> length [8, 9, 10, 11 :: real]"
    by (simp_all add: t)
  from th short have a: "fst (attachParameters twoParameters [8, 9]) = Inl ReshapeMismatch"
    by blast
  from th d have "\<forall>i < firstShort twoParameters [8, 9].
      heap (snd (attachParameters twoParameters [8, 9])) (gradientOps twoParameters ! i) =
        assignData (heap twoParameters (gradientOps twoParameters ! i))
          (NDArray (shape (heap twoParameters (gradientOps twoParameters ! i)))
             (slice [8, 9] (offset twoParameters i)
                (elementCount twoParameters (gradientOps twoParameters ! i))))"
    by blast
  from this [rule_format, of 0]
  have b: "result (heap (snd (attachParameters twoParameters [8, 9])) 0) =
      Some (NDArray [2] [8, 9])"
    by (simp add: k twoParameters_fields ec offset_def slice_def assignData_def freshNode_def)
  from th have "\<forall>a. a \<notin> set (take (firstShort twoParameters [8, 9]) (gradientOps twoParameters)) \<longrightarrow>
      heap (snd (attachParameters twoParameters [8, 9])) a = heap twoParameters a"
    by blast
  from this [rule_format, of 1]
  have c: "heap (snd (attachParameters twoParameters [8, 9])) 1 = heap twoParameters 1"
    by (simp add: k twoParameters_fields)
  have tk: "take (totalCount twoParameters) [8, 9, 10, 11 :: real] = [8, 9, 10]"
    by (simp add: t)
  from tl long have e: "fst (attachParameters twoParameters [8, 9, 10, 11]) = Inr ()"
    and f: "attachParameters twoParameters [8, 9, 10, 11] =
            attachParameters twoParameters (take (totalCount twoParameters) [8, 9, 10, 11])"
    by blast+
  from f have f': "attachParameters twoParameters [8, 9, 10, 11] =
      attachParameters twoParameters [8, 9, 10]"
    by (simp only: tk)
  from r t d k a b c e f' show ?thesis by blast
qed

lemma oneParameter_fields:
  "gradientOps oneParameter = [0]" "classOf oneParameter = (\<lambda>a. Variable)"
  "heap oneParameter 0 =
     freshNode\<lparr>shape := [1], result := Some (NDArray [1] [3]), referenceNumber := Some 0\<rparr>"
  by (simp_all add: oneParameter_def addOperation_def init_def Let_def assignReferenceNumber_def)

text \<open>
  The claim as stated fails on a vector that is too long: with one target of one element,
  a vector of two entries is accepted, the target takes the first entry and the second
  is ignored.
\<close>

theorem attachParameters_surplus_counterexample:
  "gradientOps oneParameter = [0] \<and>
   result (heap oneParameter 0) = Some (NDArray [1] [3]) \<and>
   length [5, 6 :: real] = 2 \<and>
   fst (attachParameters oneParameter [5, 6]) = Inr () \<and>
   result (heap (snd (attachParameters oneParameter [5, 6])) 0) = Some (NDArray [1] [5])"
  by (simp add: attachParameters_def oneParameter_fields Let_def np_size_def np_reshape_def
      slice_def assignData_def freshNode_def)

subsection \<open>The round trip of the parameter codec\<close>


lemma state_heap_triv: "s\<lparr>heap := (heap s)(op := heap s op)\<rparr> = s"
  by simp



lemma twoParameters_unroll:
  "unrollGradientParameters twoParameters = (Inr [1, 2, 3], twoParameters)"
  by (simp add: unrollGradientParameters_def twoParameters_fields np_ravel_def
      Variable_getValue_def freshNode_def)


subsection \<open>The layout of the unrolled gradients\<close>

lemma concat_slice:
  assumes "i < length xss"
  shows "slice (concat xss) (sum_list (map length (take i xss))) (length (xss ! i)) = xss ! i"
proof -
  have "concat xss = concat (take i xss) @ xss ! i @ concat (drop (Suc i) xss)"
    using assms by (metis id_take_nth_drop concat_append concat.simps(2))
  moreover have "length (concat (take i xss)) = sum_list (map length (take i xss))"
    by (simp add: length_concat)
  ultimately show ?thesis
    by (simp add: slice_def)
qed

lemma unrollParametersLoop_Inr:
  "unrollParametersLoop s ops acc = Inr ps \<Longrightarrow>
   ps = acc @ concat (map (flatValue s) ops) \<and>
   list_all (\<lambda>op. length (flatValue s op) = elementCount s op) ops"
proof (induction ops arbitrary: acc)
  case Nil
  then show ?case by simp
next
  case (Cons op ops)
  from Cons.prems obtain v where v: "result (heap s op) = Some v"
    and rest: "unrollParametersLoop s ops (acc @ ravel v) = Inr ps"
    by (auto simp: np_ravel_def Variable_getValue_def split: if_splits option.splits)
  have "length (flatValue s op) = elementCount s op"
    by (simp add: flatValue_def elementCount_def np_size_def v)
  moreover have "flatValue s op = ravel v"
    by (simp add: flatValue_def v)
  ultimately show ?case
    using Cons.IH [OF rest] by simp
qed

lemma feedBackwardLoop_unrollGradientsLoop:
  assumes "list_all (\<lambda>a. classOf s a = Variable) ops"
    and "feedBackwardLoop eng s ops acc = (Inr tr, s')"
  shows "\<exists>new. tr = acc @ new \<and> length new = length ops \<and>
           (list_all (\<lambda>t. gradientOf t \<noteq> None) new \<longrightarrow>
              (\<forall>g0. unrollGradientsLoop eng s ops g0 =
                      (Inr (g0 @ concat (map flatGradient new)), s')))"
  using assms
proof (induction ops arbitrary: s acc)
  case Nil
  then show ?case by simp
next
  case (Cons op ops)
  obtain r s1 where c: "call (opGetGradient eng) s op = (r, s1)"
    by (cases "call (opGetGradient eng) s op")
  with Cons.prems(2) obtain g where r: "r = Inr g"
    by (cases r) (simp_all add: Let_def)
  let ?t = "(referenceNumber (heap s op), name (heap s op), g)"
  have rest: "feedBackwardLoop eng s1 ops (acc @ [?t]) = (Inr tr, s')"
    using Cons.prems(2) c r by (simp add: Let_def)
  have cls: "classOf s1 = classOf s"
    using c by (rule graphOf_fields(8) [OF graphOf_callD])
  then have vars: "list_all (\<lambda>a. classOf s1 a = Variable) ops"
    using Cons.prems(1) by simp
  from Cons.IH [OF vars rest] obtain new where
    new: "tr = (acc @ [?t]) @ new" "length new = length ops"
      "list_all (\<lambda>t. gradientOf t \<noteq> None) new \<longrightarrow>
         (\<forall>g0. unrollGradientsLoop eng s1 ops g0 =
                 (Inr (g0 @ concat (map flatGradient new)), s'))"
    by blast
  have "\<forall>g0. unrollGradientsLoop eng s (op # ops) g0 =
              (Inr (g0 @ concat (map flatGradient (?t # new))), s')"
    if "list_all (\<lambda>t. gradientOf t \<noteq> None) (?t # new)"
  proof -
    from that obtain ga where ga: "g = Some ga" by (auto simp: gradientOf_def)
    from that new(3) have
      "\<forall>g0. unrollGradientsLoop eng s1 ops g0 = (Inr (g0 @ concat (map flatGradient new)), s')"
      by simp
    then show ?thesis
      using Cons.prems(1) c r
      by (simp add: ga np_ravel_def flatGradient_def gradientOf_def)
  qed
  with new(1,2) show ?case
    by (intro exI [of _ "?t # new"]) simp
qed

text \<open>
  C8. Let the gradient targets be Variables, let unrollGradientParameters return \<open>ps\<close>
  and let feedBackward return the gradients \<open>tr\<close> of the targets, each with as many
  elements as its target's value. Then unrollGradients returns the flattened gradients
  concatenated in the order of the gradient-target list, \<open>ps\<close> is the flattened values
  concatenated in the same order, both vectors have the same length, and target \<open>i\<close>
  occupies the same index range in both: from \<open>offset s i\<close>, over its element count.
\<close>

theorem gradients_aligned_with_parameters:
  assumes "list_all (\<lambda>a. classOf s a = Variable) (gradientOps s)"
    and "fst (unrollGradientParameters s) = Inr ps"
    and "feedBackward eng s = (Inr tr, s')"
    and "list_all2 (sameCount s) (gradientOps s) tr"
  shows "unrollGradients eng s = (Inr (concat (map flatGradient tr)), s') \<and>
         ps = concat (map (flatValue s) (gradientOps s)) \<and>
         length (concat (map flatGradient tr)) = length ps \<and>
         (\<forall>i < length (gradientOps s).
            slice ps (offset s i) (elementCount s (gradientOps s ! i)) =
              flatValue s (gradientOps s ! i) \<and>
            slice (concat (map flatGradient tr)) (offset s i) (elementCount s (gradientOps s ! i)) =
              flatGradient (tr ! i))"
proof -
  let ?ops = "gradientOps s"
  from assms(2) have pv: "ps = concat (map (flatValue s) ?ops)"
    and lv': "list_all (\<lambda>op. length (flatValue s op) = elementCount s op) ?ops"
    using unrollParametersLoop_Inr [of s ?ops "[]" ps]
    by (simp_all add: unrollGradientParameters_def)
  have lv: "map length (map (flatValue s) ?ops) = map (elementCount s) ?ops"
    using lv' by (simp add: list_all_iff)
  have len: "length tr = length ?ops"
    using assms(4) by (simp add: list_all2_lengthD)
  have each: "gradientOf (tr ! i) \<noteq> None \<and>
              length (flatGradient (tr ! i)) = elementCount s (?ops ! i)"
    if "i < length tr" for i
  proof -
    from assms(4) that have "sameCount s (?ops ! i) (tr ! i)"
      by (simp add: list_all2_conv_all_nth)
    then show ?thesis
      by (cases "gradientOf (tr ! i)") (simp_all add: sameCount_def flatGradient_def)
  qed
  have some: "list_all (\<lambda>t. gradientOf t \<noteq> None) tr"
    using each by (simp add: list_all_length)
  have lg: "map length (map flatGradient tr) = map (elementCount s) ?ops"
    using each len by (intro nth_equalityI) simp_all
  from feedBackwardLoop_unrollGradientsLoop [OF assms(1), of eng "[]" tr s'] assms(3) some
  have ug: "unrollGradients eng s = (Inr (concat (map flatGradient tr)), s')"
    by (auto simp: feedBackward_def unrollGradients_def)
  have "length (concat (map flatGradient tr)) = sum_list (map (elementCount s) ?ops)"
    by (simp only: length_concat lg)
  moreover have "length ps = sum_list (map (elementCount s) ?ops)"
    by (simp only: pv length_concat lv)
  ultimately have tot: "length (concat (map flatGradient tr)) = length ps"
    by simp
  have al: "slice ps (offset s i) (elementCount s (?ops ! i)) = flatValue s (?ops ! i) \<and>
            slice (concat (map flatGradient tr)) (offset s i) (elementCount s (?ops ! i)) =
              flatGradient (tr ! i)"
    if i: "i < length ?ops" for i
  proof -
    have o: "offset s i = sum_list (take i (map (elementCount s) ?ops))"
      by (simp only: offset_def take_map)
    have o1: "offset s i = sum_list (map length (take i (map (flatValue s) ?ops)))"
      by (simp only: o lv [symmetric] take_map)
    have o2: "offset s i = sum_list (map length (take i (map flatGradient tr)))"
      by (simp only: o lg [symmetric] take_map)
    have n1: "elementCount s (?ops ! i) = length (map (flatValue s) ?ops ! i)"
      using i lv by (metis length_map nth_map)
    have n2: "elementCount s (?ops ! i) = length (map flatGradient tr ! i)"
      using i lg len by (metis length_map nth_map)
    have "slice ps (offset s i) (elementCount s (?ops ! i)) = map (flatValue s) ?ops ! i"
      unfolding pv o1 n1 using i by (intro concat_slice) simp
    moreover have "slice (concat (map flatGradient tr)) (offset s i) (elementCount s (?ops ! i)) =
        map flatGradient tr ! i"
      unfolding o2 n2 using i len by (intro concat_slice) simp
    ultimately show ?thesis using i len by simp
  qed
  from ug pv tot al show ?thesis by blast
qed

theorem gradients_aligned_with_parameters_witness:
  "list_all (\<lambda>a. classOf twoParameters a = Variable) (gradientOps twoParameters) \<and>
   fst (unrollGradientParameters twoParameters) = Inr [1, 2, 3] \<and>
   unrollGradients cached twoParameters = (Inr [10, 20, 30], twoParameters) \<and>
   offset twoParameters 1 = 2 \<and> elementCount twoParameters (gradientOps twoParameters ! 1) = 1 \<and>
   slice [1, 2, 3 :: real] (offset twoParameters 1)
     (elementCount twoParameters (gradientOps twoParameters ! 1)) = [3] \<and>
   slice [10, 20, 30 :: real] (offset twoParameters 1)
     (elementCount twoParameters (gradientOps twoParameters ! 1)) = [30]"
proof -
  let ?tr = "[(Some 0, ''node'', Some (NDArray [2] [10, 20 :: real])),
              (Some 1, ''node'', Some (NDArray [1] [30]))]"
  have vars: "list_all (\<lambda>a. classOf twoParameters a = Variable) (gradientOps twoParameters)"
    by (simp add: twoParameters_fields)
  have vals: "fst (unrollGradientParameters twoParameters) = Inr [1, 2, 3]"
    by (simp add: twoParameters_unroll)
  have fb: "feedBackward cached twoParameters = (Inr ?tr, twoParameters)"
    by (simp add: feedBackward_def twoParameters_fields call_def cached_def Let_def freshNode_def)
  have ec: "elementCount twoParameters 0 = 2" "elementCount twoParameters (Suc 0) = 1"
    by (simp_all add: elementCount_def np_size_def twoParameters_fields freshNode_def)
  have sizes: "list_all2 (sameCount twoParameters) (gradientOps twoParameters) ?tr"
    by (simp add: sameCount_def gradientOf_def twoParameters_fields ec)
  note th = gradients_aligned_with_parameters [OF vars vals fb sizes]
  have fg: "concat (map flatGradient ?tr) = [10, 20, 30]"
    by (simp add: flatGradient_def gradientOf_def)
  have fv: "flatValue twoParameters (gradientOps twoParameters ! 1) = [3]"
    "flatGradient (?tr ! 1) = [30]"
    by (simp_all add: flatValue_def flatGradient_def gradientOf_def twoParameters_fields
        freshNode_def)
  have off: "offset twoParameters 1 = 2"
    "elementCount twoParameters (gradientOps twoParameters ! 1) = 1"
    by (simp_all add: offset_def twoParameters_fields ec)
  from th have ug: "unrollGradients cached twoParameters =
      (Inr (concat (map flatGradient ?tr)), twoParameters)"
    by (rule conjunct1)
  from th have "\<forall>i < length (gradientOps twoParameters).
      slice [1, 2, 3] (offset twoParameters i)
        (elementCount twoParameters (gradientOps twoParameters ! i)) =
        flatValue twoParameters (gradientOps twoParameters ! i) \<and>
      slice (concat (map flatGradient ?tr)) (offset twoParameters i)
        (elementCount twoParameters (gradientOps twoParameters ! i)) = flatGradient (?tr ! i)"
    by blast
  from this [rule_format, of 1]
  have al: "slice [1, 2, 3] (offset twoParameters 1)
        (elementCount twoParameters (gradientOps twoParameters ! 1)) =
        flatValue twoParameters (gradientOps twoParameters ! 1) \<and>
      slice (concat (map flatGradient ?tr)) (offset twoParameters 1)
        (elementCount twoParameters (gradientOps twoParameters ! 1)) = flatGradient (?tr ! 1)"
    by (simp add: twoParameters_fields)
  from vars vals ug al off show ?thesis
    by (simp only: fg fv)
qed

end
